theory Spec2Isabelle
  imports Complex_Main "HOL-Library.Word" "HOL-Library.List_Lexorder" "HOL-Library.Char_ord"
begin

unbundle bit_operations_syntax

section \<open>Data model of the storage node\<close>

text \<open>
  Identifiers, keys and values are Python \<open>str\<close>; they are modelled as byte strings in
  UTF-8, whose lexicographic byte order coincides with Python's code-point order on
  \<open>str\<close>. A value is a string or \<open>None\<close> (the tombstone). Timestamps are the floats of
  \<open>ctx.time()\<close>; only their order is used, so they are modelled as reals, the sentinel
  \<open>-1.0\<close> being \<open>-1\<close>. A cell is the Python tuple \<open>(value, timestamp)\<close>.
\<close>

type_synonym node_id = string
type_synonym key = string
type_synonym val = "string option"
type_synonym timestamp = real
type_synonym cell = "val \<times> timestamp"
type_synonym request_id = int

datatype error = KeyError | ZeroDivisionError

datatype operation = Op_GET | Op_PUT | Op_DELETE

text \<open>Messages: one constructor per message type, the arguments in the order of the
  source's field dictionaries. \<open>Other\<close> stands for any type tag the dispatchers ignore.\<close>

datatype message =
    GET key int
  | PUT key val int
  | DELETE key int
  | REPLICA_GET_REQ key request_id node_id
  | REPLICA_GET_RESP key val timestamp request_id node_id
  | REPLICA_PUT_REQ key val request_id node_id timestamp
  | REPLICA_PUT_RESP key val timestamp request_id node_id
  | REPLICA_DELETE_REQ key request_id node_id timestamp
  | REPLICA_DELETE_RESP key val timestamp request_id node_id
  | REPLICA_READ_REPAIR key val timestamp
  | GET_RESP key val
  | PUT_RESP key val
  | DELETE_RESP key val
  | Other string

text \<open>What a handler emits: \<open>ctx.send(msg, to)\<close> and \<open>ctx.send_local(msg)\<close>, in order.\<close>

datatype out = Send message node_id | Send_local message

text \<open>
  The dictionary stored in \<open>_pending_requests\<close>. \<open>p_value\<close> and \<open>p_timestamp\<close> exist for
  PUT (and the latter for DELETE) only and are never read back. \<open>p_responses\<close> is a Python
  dict that the finalizers iterate: an association list in insertion order.
\<close>

record pending_request =
  p_operation :: operation
  p_key :: key
  p_value :: val
  p_replicas :: "node_id list"
  p_quorum :: int
  p_responses :: "(node_id \<times> cell) list"
  p_timestamp_sent :: timestamp
  p_timestamp :: "timestamp option"

record node =
  self_id :: node_id
  self_nodes :: "node_id list"
  self_node_count :: int
  self_data :: "key \<rightharpoonup> cell"
  self_pending_requests :: "request_id \<rightharpoonup> pending_request"
  self_request_counter :: int

type_synonym result = "error + node \<times> out list"

definition storage_node :: "node_id \<Rightarrow> node_id list \<Rightarrow> node" where
  "storage_node node_id nodes =
     \<lparr>self_id = node_id, self_nodes = sort nodes, self_node_count = int (length (sort nodes)),
      self_data = Map.empty, self_pending_requests = Map.empty, self_request_counter = 0\<rparr>"

section \<open>Placement\<close>

subsection \<open>MD5 (RFC 1321), as \<open>hashlib.md5(...).digest()\<close> computes it\<close>

text \<open>The per-round shift amounts and the constants \<open>floor(2^32 * abs(sin(i + 1)))\<close>.\<close>

definition md5_s :: "nat list" where
  "md5_s = [7, 12, 17, 22, 7, 12, 17, 22, 7, 12, 17, 22, 7, 12, 17, 22,
            5, 9, 14, 20, 5, 9, 14, 20, 5, 9, 14, 20, 5, 9, 14, 20,
            4, 11, 16, 23, 4, 11, 16, 23, 4, 11, 16, 23, 4, 11, 16, 23,
            6, 10, 15, 21, 6, 10, 15, 21, 6, 10, 15, 21, 6, 10, 15, 21]"

definition md5_K :: "32 word list" where
  "md5_K = [0xd76aa478, 0xe8c7b756, 0x242070db, 0xc1bdceee, 0xf57c0faf, 0x4787c62a, 0xa8304613, 0xfd469501, 0x698098d8, 0x8b44f7af, 0xffff5bb1, 0x895cd7be, 0x6b901122, 0xfd987193, 0xa679438e, 0x49b40821, 0xf61e2562, 0xc040b340, 0x265e5a51, 0xe9b6c7aa, 0xd62f105d, 0x02441453, 0xd8a1e681, 0xe7d3fbc8, 0x21e1cde6, 0xc33707d6, 0xf4d50d87, 0x455a14ed, 0xa9e3e905, 0xfcefa3f8, 0x676f02d9, 0x8d2a4c8a, 0xfffa3942, 0x8771f681, 0x6d9d6122, 0xfde5380c, 0xa4beea44, 0x4bdecfa9, 0xf6bb4b60, 0xbebfbc70, 0x289b7ec6, 0xeaa127fa, 0xd4ef3085, 0x04881d05, 0xd9d4d039, 0xe6db99e5, 0x1fa27cf8, 0xc4ac5665, 0xf4292244, 0x432aff97, 0xab9423a7, 0xfc93a039, 0x655b59c3, 0x8f0ccc92, 0xffeff47d, 0x85845dd1, 0x6fa87e4f, 0xfe2ce6e0, 0xa3014314, 0x4e0811a1, 0xf7537e82, 0xbd3af235, 0x2ad7d2bb, 0xeb86d391]"

text \<open>Padding: the byte \<open>0x80\<close>, zeros up to 56 modulo 64, and the bit length as 64 bits,
  little-endian; then the message as little-endian 32-bit words.\<close>

definition md5_pad :: "8 word list \<Rightarrow> 8 word list" where
  "md5_pad bs = bs @ [0x80] @ replicate ((119 - length bs mod 64) mod 64) 0
                 @ map (\<lambda>i. ucast (drop_bit (8 * i) (word_of_nat (8 * length bs) :: 64 word))) [0..<8]"

fun md5_words :: "8 word list \<Rightarrow> 32 word list" where
  "md5_words (b0 # b1 # b2 # b3 # bs) =
     (ucast b0 OR push_bit 8 (ucast b1) OR push_bit 16 (ucast b2) OR push_bit 24 (ucast b3))
       # md5_words bs"
| "md5_words _ = []"

text \<open>One of the 64 operations on the state \<open>(A, B, C, D)\<close>, with the 16 words \<open>M\<close> of the
  chunk; a chunk; all chunks.\<close>

type_synonym md5_state = "32 word \<times> 32 word \<times> 32 word \<times> 32 word"

definition md5_op :: "32 word list \<Rightarrow> md5_state \<Rightarrow> nat \<Rightarrow> md5_state" where
  "md5_op M st i = (case st of (A, B, C, D) \<Rightarrow>
     let F = (if i < 16 then (B AND C) OR (NOT B AND D)
              else if i < 32 then (D AND B) OR (NOT D AND C)
              else if i < 48 then B XOR C XOR D
              else C XOR (B OR NOT D));
         g = (if i < 16 then i
              else if i < 32 then (5 * i + 1) mod 16
              else if i < 48 then (3 * i + 5) mod 16
              else (7 * i) mod 16);
         F' = F + A + md5_K ! i + M ! g
     in (D, B + word_rotl (md5_s ! i) F', B, C))"

definition md5_chunk :: "md5_state \<Rightarrow> 32 word list \<Rightarrow> md5_state" where
  "md5_chunk st M = (case st of (a0, b0, c0, d0) \<Rightarrow>
     case foldl (md5_op M) st [0..<64] of (A, B, C, D) \<Rightarrow> (a0 + A, b0 + B, c0 + C, d0 + D))"

fun md5_chunks :: "md5_state \<Rightarrow> 32 word list \<Rightarrow> md5_state" where
  "md5_chunks st ws = (if length ws < 16 then st
                       else md5_chunks (md5_chunk st (take 16 ws)) (drop 16 ws))"

text \<open>The digest of \<open>key.encode('utf8')\<close>: the four state words, each little-endian.\<close>

definition word_bytes :: "32 word \<Rightarrow> 8 word list" where
  "word_bytes w = map (\<lambda>i. ucast (drop_bit (8 * i) w)) [0..<4]"

definition md5 :: "string \<Rightarrow> 8 word list" where
  "md5 s = (case md5_chunks (0x67452301, 0xefcdab89, 0x98badcfe, 0x10325476)
                   (md5_words (md5_pad (map (\<lambda>c. word_of_nat (of_char c)) s))) of
              (a, b, c, d) \<Rightarrow> word_bytes a @ word_bytes b @ word_bytes c @ word_bytes d)"

text \<open>\<open>int.from_bytes(digest, 'little', signed=False)\<close>\<close>

definition from_bytes_little :: "8 word list \<Rightarrow> int" where
  "from_bytes_little bs = foldr (\<lambda>b acc. uint b + 256 * acc) bs 0"

subsection \<open>\<open>get_key_replicas\<close> and \<open>get_next_replica\<close>\<close>

text \<open>\<open>str(cur)\<close> on a Python int: the decimal numeral.\<close>

definition digit_char :: "int \<Rightarrow> char" where
  "digit_char d = ''0123456789'' ! nat d"

function str :: "int \<Rightarrow> string" where
  "str n = (if n < 0 then CHR ''-'' # str (- n)
            else if n < 10 then [digit_char n]
            else str (n div 10) @ [digit_char (n mod 10)])"
  by pat_completeness auto
termination
  by (relation "measure (\<lambda>n. if n < 0 then nat (- n) + 1 else nat n)") auto

definition get_next_replica :: "int \<Rightarrow> int \<Rightarrow> error + int" where
  "get_next_replica i node_count =
     (if node_count = 0 then Inl ZeroDivisionError else Inr ((i + 1) mod node_count))"

text \<open>The \<open>for _ in range(3)\<close> loop, with the number of remaining iterations.\<close>

fun replicas_loop :: "nat \<Rightarrow> int \<Rightarrow> int \<Rightarrow> string list \<Rightarrow> error + string list" where
  "replicas_loop 0 cur node_count replicas = Inr replicas"
| "replicas_loop (Suc n) cur node_count replicas =
     (case get_next_replica cur node_count of
        Inl e \<Rightarrow> Inl e
      | Inr cur' \<Rightarrow> replicas_loop n cur' node_count (replicas @ [str cur]))"

definition get_key_replicas :: "key \<Rightarrow> int \<Rightarrow> error + string list" where
  "get_key_replicas key node_count =
     (let key_hash = from_bytes_little (md5 key)
      in if node_count = 0 then Inl ZeroDivisionError
         else replicas_loop 3 (key_hash mod node_count) node_count [])"

section \<open>Replica side\<close>

text \<open>\<open>self._data.get(key, (None, -1.0))\<close>\<close>

definition data_get :: "(key \<rightharpoonup> cell) \<Rightarrow> key \<Rightarrow> cell" where
  "data_get d key = (case d key of None \<Rightarrow> (None, - 1) | Some c \<Rightarrow> c)"

definition handle_replica_get_req :: "node \<Rightarrow> key \<Rightarrow> request_id \<Rightarrow> node_id \<Rightarrow> node \<times> out list" where
  "handle_replica_get_req s key request_id coordinator =
     (case data_get (self_data s) key of (value, timestamp) \<Rightarrow>
        (s, [Send (REPLICA_GET_RESP key value timestamp request_id (self_id s)) coordinator]))"

text \<open>
  The computation of \<open>should_update\<close>, written out twice in the source (in
  \<open>_handle_replica_read_repair\<close> and \<open>_handle_replica_put_req\<close>): the first argument is the
  incoming \<open>(value, timestamp)\<close>, the second the stored \<open>(current_value, current_timestamp)\<close>.
\<close>

fun should_update :: "cell \<Rightarrow> cell \<Rightarrow> bool" where
  "should_update (value, timestamp) (current_value, current_timestamp) =
     (if timestamp > current_timestamp then True
      else if timestamp = current_timestamp then
        (if value \<noteq> None \<and> current_value \<noteq> None then the value > the current_value
         else if value \<noteq> None then True
         else False)
      else False)"

definition handle_replica_read_repair :: "node \<Rightarrow> key \<Rightarrow> val \<Rightarrow> timestamp \<Rightarrow> node \<times> out list" where
  "handle_replica_read_repair s key value timestamp =
     (if should_update (value, timestamp) (data_get (self_data s) key)
      then (s\<lparr>self_data := (self_data s)(key \<mapsto> (value, timestamp))\<rparr>, [])
      else (s, []))"

definition handle_replica_put_req ::
    "node \<Rightarrow> key \<Rightarrow> val \<Rightarrow> request_id \<Rightarrow> node_id \<Rightarrow> timestamp \<Rightarrow> node \<times> out list" where
  "handle_replica_put_req s key value request_id coordinator timestamp =
     (case data_get (self_data s) key of (current_value, current_timestamp) \<Rightarrow>
        if should_update (value, timestamp) (current_value, current_timestamp)
        then (s\<lparr>self_data := (self_data s)(key \<mapsto> (value, timestamp))\<rparr>,
              [Send (REPLICA_PUT_RESP key value timestamp request_id (self_id s)) coordinator])
        else (s, [Send (REPLICA_PUT_RESP key current_value current_timestamp request_id (self_id s))
                    coordinator]))"

definition handle_replica_delete_req ::
    "node \<Rightarrow> key \<Rightarrow> request_id \<Rightarrow> node_id \<Rightarrow> timestamp \<Rightarrow> node \<times> out list" where
  "handle_replica_delete_req s key request_id coordinator timestamp =
     (case data_get (self_data s) key of (current_value, current_timestamp) \<Rightarrow>
        (s\<lparr>self_data := (self_data s)(key \<mapsto> (None, timestamp))\<rparr>,
         [Send (REPLICA_DELETE_RESP key current_value current_timestamp request_id (self_id s))
            coordinator]))"

text \<open>The cell a replica holds after \<open>should_update\<close> has been acted on: the merge of the
  incoming cell into the stored one.\<close>

definition merge :: "cell \<Rightarrow> cell \<Rightarrow> cell" where
  "merge new cur = (if should_update new cur then new else cur)"

section \<open>Coordinator side\<close>

subsection \<open>Local requests\<close>

definition handle_local_get :: "node \<Rightarrow> key \<Rightarrow> int \<Rightarrow> timestamp \<Rightarrow> result" where
  "handle_local_get s key quorum now =
     (case get_key_replicas key (self_node_count s) of
        Inl e \<Rightarrow> Inl e
      | Inr replicas \<Rightarrow>
          let request_id = self_request_counter s
          in Inr (s\<lparr>self_request_counter := self_request_counter s + 1,
                    self_pending_requests := (self_pending_requests s)(request_id \<mapsto>
                      \<lparr>p_operation = Op_GET, p_key = key, p_value = None, p_replicas = replicas,
                       p_quorum = quorum, p_responses = [], p_timestamp_sent = now,
                       p_timestamp = None\<rparr>)\<rparr>,
                  map (\<lambda>replica. Send (REPLICA_GET_REQ key request_id (self_id s)) replica)
                    replicas))"

definition handle_local_put :: "node \<Rightarrow> key \<Rightarrow> val \<Rightarrow> int \<Rightarrow> timestamp \<Rightarrow> result" where
  "handle_local_put s key value quorum now =
     (case get_key_replicas key (self_node_count s) of
        Inl e \<Rightarrow> Inl e
      | Inr replicas \<Rightarrow>
          let request_id = self_request_counter s;
              timestamp = now
          in Inr (s\<lparr>self_request_counter := self_request_counter s + 1,
                    self_pending_requests := (self_pending_requests s)(request_id \<mapsto>
                      \<lparr>p_operation = Op_PUT, p_key = key, p_value = value, p_replicas = replicas,
                       p_quorum = quorum, p_responses = [], p_timestamp_sent = timestamp,
                       p_timestamp = Some timestamp\<rparr>)\<rparr>,
                  map (\<lambda>replica.
                         Send (REPLICA_PUT_REQ key value request_id (self_id s) timestamp) replica)
                    replicas))"

definition handle_local_delete :: "node \<Rightarrow> key \<Rightarrow> int \<Rightarrow> timestamp \<Rightarrow> result" where
  "handle_local_delete s key quorum now =
     (case get_key_replicas key (self_node_count s) of
        Inl e \<Rightarrow> Inl e
      | Inr replicas \<Rightarrow>
          let request_id = self_request_counter s;
              timestamp = now
          in Inr (s\<lparr>self_request_counter := self_request_counter s + 1,
                    self_pending_requests := (self_pending_requests s)(request_id \<mapsto>
                      \<lparr>p_operation = Op_DELETE, p_key = key, p_value = None, p_replicas = replicas,
                       p_quorum = quorum, p_responses = [], p_timestamp_sent = timestamp,
                       p_timestamp = Some timestamp\<rparr>)\<rparr>,
                  map (\<lambda>replica.
                         Send (REPLICA_DELETE_REQ key request_id (self_id s) timestamp) replica)
                    replicas))"

subsection \<open>Collecting responses\<close>

text \<open>\<open>d[k] = v\<close> on a Python dict: an existing key keeps its place in the iteration order,
  a new key goes last.\<close>

fun dict_set :: "('k \<times> 'v) list \<Rightarrow> 'k \<Rightarrow> 'v \<Rightarrow> ('k \<times> 'v) list" where
  "dict_set [] k v = [(k, v)]"
| "dict_set ((k', v') # d) k v = (if k' = k then (k, v) # d else (k', v') # dict_set d k v)"

text \<open>The first loop of each finalizer, over \<open>pending['responses'].items()\<close>; the first
  argument is \<open>(best_value, best_timestamp)\<close>.\<close>

fun best_loop :: "cell \<Rightarrow> (node_id \<times> cell) list \<Rightarrow> cell" where
  "best_loop best [] = best"
| "best_loop (best_value, best_timestamp) ((replica, (value, timestamp)) # rest) =
     (if timestamp > best_timestamp then best_loop (value, timestamp) rest
      else if timestamp = best_timestamp \<and> value \<noteq> None \<and> best_value \<noteq> None then
        (if the value > the best_value then best_loop (value, best_timestamp) rest
         else best_loop (best_value, best_timestamp) rest)
      else best_loop (best_value, best_timestamp) rest)"

definition best_cell :: "(node_id \<times> cell) list \<Rightarrow> cell" where
  "best_cell rs = best_loop (None, - 1) rs"

text \<open>The second loop of \<open>_finalize_get\<close>.\<close>

fun repair_loop :: "key \<Rightarrow> cell \<Rightarrow> (node_id \<times> cell) list \<Rightarrow> out list" where
  "repair_loop key best [] = []"
| "repair_loop key (best_value, best_timestamp) ((replica, (value, timestamp)) # rest) =
     (if timestamp < best_timestamp \<or> (timestamp = best_timestamp \<and> value \<noteq> best_value)
      then Send (REPLICA_READ_REPAIR key best_value best_timestamp) replica
             # repair_loop key (best_value, best_timestamp) rest
      else repair_loop key (best_value, best_timestamp) rest)"

text \<open>\<open>self._pending_requests.pop(request_id)\<close> raises \<open>KeyError\<close> on a missing key.\<close>

definition finalize_get :: "node \<Rightarrow> request_id \<Rightarrow> result" where
  "finalize_get s request_id =
     (case self_pending_requests s request_id of
        None \<Rightarrow> Inl KeyError
      | Some pending \<Rightarrow>
          let key = p_key pending;
              best = best_cell (p_responses pending)
          in Inr (s\<lparr>self_pending_requests := (self_pending_requests s)(request_id := None)\<rparr>,
                  repair_loop key best (p_responses pending)
                    @ [Send_local (GET_RESP key (fst best))]))"

definition finalize_put :: "node \<Rightarrow> request_id \<Rightarrow> result" where
  "finalize_put s request_id =
     (case self_pending_requests s request_id of
        None \<Rightarrow> Inl KeyError
      | Some pending \<Rightarrow>
          let key = p_key pending;
              best = best_cell (p_responses pending)
          in Inr (s\<lparr>self_pending_requests := (self_pending_requests s)(request_id := None)\<rparr>,
                  [Send_local (PUT_RESP key (fst best))]))"

definition finalize_delete :: "node \<Rightarrow> request_id \<Rightarrow> result" where
  "finalize_delete s request_id =
     (case self_pending_requests s request_id of
        None \<Rightarrow> Inl KeyError
      | Some pending \<Rightarrow>
          let key = p_key pending;
              best = best_cell (p_responses pending)
          in Inr (s\<lparr>self_pending_requests := (self_pending_requests s)(request_id := None)\<rparr>,
                  [Send_local (DELETE_RESP key (fst best))]))"

text \<open>
  The response handlers. \<open>pending\<close> is the dictionary held in the table, so the assignment
  \<open>pending['responses'][replica] = (value, timestamp)\<close> changes the table's entry.
\<close>

definition handle_replica_get_resp ::
    "node \<Rightarrow> val \<Rightarrow> timestamp \<Rightarrow> request_id \<Rightarrow> node_id \<Rightarrow> result" where
  "handle_replica_get_resp s value timestamp request_id replica =
     (case self_pending_requests s request_id of
        None \<Rightarrow> Inr (s, [])
      | Some pending \<Rightarrow>
          let pending' = pending\<lparr>p_responses :=
                           dict_set (p_responses pending) replica (value, timestamp)\<rparr>;
              s' = s\<lparr>self_pending_requests :=
                       (self_pending_requests s)(request_id \<mapsto> pending')\<rparr>
          in if int (length (p_responses pending')) \<ge> p_quorum pending'
             then finalize_get s' request_id
             else Inr (s', []))"

definition handle_replica_put_resp ::
    "node \<Rightarrow> val \<Rightarrow> timestamp \<Rightarrow> request_id \<Rightarrow> node_id \<Rightarrow> result" where
  "handle_replica_put_resp s value timestamp request_id replica =
     (case self_pending_requests s request_id of
        None \<Rightarrow> Inr (s, [])
      | Some pending \<Rightarrow>
          if p_operation pending \<noteq> Op_PUT then Inr (s, [])
          else
            let pending' = pending\<lparr>p_responses :=
                             dict_set (p_responses pending) replica (value, timestamp)\<rparr>;
                s' = s\<lparr>self_pending_requests :=
                         (self_pending_requests s)(request_id \<mapsto> pending')\<rparr>
            in if int (length (p_responses pending')) \<ge> p_quorum pending'
               then finalize_put s' request_id
               else Inr (s', []))"

definition handle_replica_delete_resp ::
    "node \<Rightarrow> val \<Rightarrow> timestamp \<Rightarrow> request_id \<Rightarrow> node_id \<Rightarrow> result" where
  "handle_replica_delete_resp s value timestamp request_id replica =
     (case self_pending_requests s request_id of
        None \<Rightarrow> Inr (s, [])
      | Some pending \<Rightarrow>
          if p_operation pending \<noteq> Op_DELETE then Inr (s, [])
          else
            let pending' = pending\<lparr>p_responses :=
                             dict_set (p_responses pending) replica (value, timestamp)\<rparr>;
                s' = s\<lparr>self_pending_requests :=
                         (self_pending_requests s)(request_id \<mapsto> pending')\<rparr>
            in if int (length (p_responses pending')) \<ge> p_quorum pending'
               then finalize_delete s' request_id
               else Inr (s', []))"

section \<open>Dispatch\<close>

text \<open>\<open>on_local_message\<close>; the last argument is what \<open>ctx.time()\<close> returns during the call.\<close>

fun on_local_message :: "node \<Rightarrow> message \<Rightarrow> timestamp \<Rightarrow> result" where
  "on_local_message s (GET key quorum) now = handle_local_get s key quorum now"
| "on_local_message s (PUT key value quorum) now = handle_local_put s key value quorum now"
| "on_local_message s (DELETE key quorum) now = handle_local_delete s key quorum now"
| "on_local_message s _ now = Inr (s, [])"

fun on_message :: "node \<Rightarrow> message \<Rightarrow> node_id \<Rightarrow> result" where
  "on_message s (REPLICA_GET_REQ key request_id coordinator) sender =
     Inr (handle_replica_get_req s key request_id coordinator)"
| "on_message s (REPLICA_GET_RESP key value timestamp request_id replica) sender =
     handle_replica_get_resp s value timestamp request_id replica"
| "on_message s (REPLICA_PUT_REQ key value request_id coordinator timestamp) sender =
     Inr (handle_replica_put_req s key value request_id coordinator timestamp)"
| "on_message s (REPLICA_PUT_RESP key value timestamp request_id replica) sender =
     handle_replica_put_resp s value timestamp request_id replica"
| "on_message s (REPLICA_DELETE_REQ key request_id coordinator timestamp) sender =
     Inr (handle_replica_delete_req s key request_id coordinator timestamp)"
| "on_message s (REPLICA_DELETE_RESP key value timestamp request_id replica) sender =
     handle_replica_delete_resp s value timestamp request_id replica"
| "on_message s (REPLICA_READ_REPAIR key value timestamp) sender =
     Inr (handle_replica_read_repair s key value timestamp)"
| "on_message s _ sender = Inr (s, [])"

definition on_timer :: "node \<Rightarrow> string \<Rightarrow> result" where
  "on_timer s timer_name = Inr (s, [])"

section \<open>Executions of one node\<close>

text \<open>
  The node is driven by its environment one call at a time: a local message together with
  the clock reading of that call, a message from a peer, or a timer. An exception leaving a
  handler ends the execution.
\<close>

datatype event = Local_message message timestamp | Message message node_id | Timer string

fun step :: "node \<Rightarrow> event \<Rightarrow> result" where
  "step s (Local_message msg now) = on_local_message s msg now"
| "step s (Message msg sender) = on_message s msg sender"
| "step s (Timer timer_name) = on_timer s timer_name"

fun run :: "node \<Rightarrow> event list \<Rightarrow> result" where
  "run s [] = Inr (s, [])"
| "run s (ev # evs) =
     (case step s ev of
        Inl e \<Rightarrow> Inl e
      | Inr (s', outs) \<Rightarrow>
          (case run s' evs of
             Inl e \<Rightarrow> Inl e
           | Inr (s'', outs') \<Rightarrow> Inr (s'', outs @ outs')))"

section \<open>Notions used in the statements\<close>

text \<open>
  Placement as the specification words it (section 4.1): with \<open>H\<close> the MD5 digest of the key
  read as an unsigned little-endian integer and \<open>N\<close> the number of nodes, the entries of the
  sorted node list at the indices \<open>H mod N\<close>, \<open>(H mod N + 1) mod N\<close> and \<open>(H mod N + 2) mod N\<close>.
  It is meant for a non-empty node list, where the three indices are in range.
\<close>

definition spec_replicas_of :: "key \<Rightarrow> node_id list \<Rightarrow> node_id list" where
  "spec_replicas_of key nodes =
     (let H = from_bytes_little (md5 key);
          sorted_nodes = sort nodes;
          N = int (length sorted_nodes);
          i = H mod N
      in [sorted_nodes ! nat i, sorted_nodes ! nat ((i + 1) mod N),
          sorted_nodes ! nat ((i + 2) mod N)])"

text \<open>
  The reconciliation order as the specification words it (section 4.2):
  \<open>cell_less c1 c2\<close> says that cell 2 wins over cell 1. The later timestamp wins; at equal
  timestamps the greater concrete value wins, a concrete value wins over a tombstone, and two
  tombstones are equal.
\<close>

fun cell_less :: "cell \<Rightarrow> cell \<Rightarrow> bool" where
  "cell_less (v1, t1) (v2, t2) =
     (t1 < t2 \<or> (t1 = t2 \<and> (case (v1, v2) of
                                (Some x, Some y) \<Rightarrow> x < y
                              | (None, Some y) \<Rightarrow> True
                              | (_, None) \<Rightarrow> False)))"

definition cell_le :: "cell \<Rightarrow> cell \<Rightarrow> bool" where
  "cell_le c1 c2 = (cell_less c1 c2 \<or> c1 = c2)"

text \<open>Cells among which no tombstone and concrete value share a timestamp.\<close>

definition tie_free :: "cell list \<Rightarrow> bool" where
  "tie_free cs =
     (\<forall>c1\<in>set cs. \<forall>c2\<in>set cs. snd c1 = snd c2 \<longrightarrow> (fst c1 = None) = (fst c2 = None))"

text \<open>A \<open>REPLICA_*_RESP\<close> message read as: the operation its tag names, the request it
  answers, the replica that answers, and the cell it carries.\<close>

fun response_of :: "message \<Rightarrow> (operation \<times> request_id \<times> node_id \<times> cell) option" where
  "response_of (REPLICA_GET_RESP key value timestamp request_id replica) =
     Some (Op_GET, request_id, replica, (value, timestamp))"
| "response_of (REPLICA_PUT_RESP key value timestamp request_id replica) =
     Some (Op_PUT, request_id, replica, (value, timestamp))"
| "response_of (REPLICA_DELETE_RESP key value timestamp request_id replica) =
     Some (Op_DELETE, request_id, replica, (value, timestamp))"
| "response_of _ = None"

text \<open>The finalizer of an operation, and the client reply it sends.\<close>

fun finalizer :: "operation \<Rightarrow> node \<Rightarrow> request_id \<Rightarrow> result" where
  "finalizer Op_GET = finalize_get"
| "finalizer Op_PUT = finalize_put"
| "finalizer Op_DELETE = finalize_delete"

fun reply :: "operation \<Rightarrow> key \<Rightarrow> val \<Rightarrow> message" where
  "reply Op_GET = GET_RESP"
| "reply Op_PUT = PUT_RESP"
| "reply Op_DELETE = DELETE_RESP"

text \<open>A client request read as: its operation, key and quorum.\<close>

fun request_of :: "message \<Rightarrow> (operation \<times> key \<times> int) option" where
  "request_of (GET key quorum) = Some (Op_GET, key, quorum)"
| "request_of (PUT key value quorum) = Some (Op_PUT, key, quorum)"
| "request_of (DELETE key quorum) = Some (Op_DELETE, key, quorum)"
| "request_of _ = None"

text \<open>Whether an event delivers a response that carries the given request identifier, and
  whether such a response comes from one of the given replicas.\<close>

fun response_for :: "request_id \<Rightarrow> event \<Rightarrow> bool" where
  "response_for rid (Message msg sender) =
     (case response_of msg of Some (op, rid', replica, c) \<Rightarrow> rid' = rid | None \<Rightarrow> False)"
| "response_for rid _ = False"


text \<open>Every request in the table was numbered by the counter before it moved on.\<close>

definition ids_below_counter :: "node \<Rightarrow> bool" where
  "ids_below_counter s =
     (\<forall>rid. self_pending_requests s rid \<noteq> None \<longrightarrow> rid < self_request_counter s)"

text \<open>
  The number of steps of an execution at which the request leaves the table. Only the
  \<open>pop\<close> of a finalizer takes an entry out of \<open>_pending_requests\<close>, so these are the
  finalizations of the request.
\<close>

fun finalizations :: "request_id \<Rightarrow> node \<Rightarrow> event list \<Rightarrow> nat" where
  "finalizations rid s [] = 0"
| "finalizations rid s (ev # evs) =
     (case step s ev of
        Inl e \<Rightarrow> 0
      | Inr (s', outs) \<Rightarrow>
          (if self_pending_requests s rid \<noteq> None \<and> self_pending_requests s' rid = None
           then 1 else 0) + finalizations rid s' evs)"

text \<open>Everything the node emits, along an execution, while it handles a response that
  carries the given request identifier: the finalizer of that request is called nowhere
  else.\<close>

fun emitted_for :: "request_id \<Rightarrow> node \<Rightarrow> event list \<Rightarrow> out list" where
  "emitted_for rid s [] = []"
| "emitted_for rid s (ev # evs) =
     (case step s ev of
        Inl e \<Rightarrow> []
      | Inr (s', outs) \<Rightarrow>
          (if response_for rid ev then outs else []) @ emitted_for rid s' evs)"

text \<open>The responses recorded for every pending request come from distinct replicas: the
  keys of the Python dict.\<close>

definition slots_distinct :: "node \<Rightarrow> bool" where
  "slots_distinct s =
     (\<forall>rid p. self_pending_requests s rid = Some p \<longrightarrow> distinct (map fst (p_responses p)))"

text \<open>An event that leaves the slot of the replica in the request's responses at the given
  cell: anything but a response to that request from that replica with another cell.\<close>

fun slot_kept :: "request_id \<Rightarrow> node_id \<Rightarrow> cell \<Rightarrow> event \<Rightarrow> bool" where
  "slot_kept rid replica c (Message msg sender) =
     (case response_of msg of
        Some (op, rid', replica', c') \<Rightarrow> rid' \<noteq> rid \<or> replica' \<noteq> replica \<or> c' = c
      | None \<Rightarrow> True)"
| "slot_kept rid replica c _ = True"

text \<open>
  The states in which one more copy of a response changes nothing: the request identifier
  was allocated, and the request is gone, or refuses the response's tag, or holds the
  response's cell in the replica's slot while it waits for its quorum.
\<close>

definition copy_harmless :: "operation \<Rightarrow> request_id \<Rightarrow> node_id \<Rightarrow> cell \<Rightarrow> node \<Rightarrow> bool" where
  "copy_harmless op rid replica c s =
     (rid < self_request_counter s \<and>
      (case self_pending_requests s rid of
         None \<Rightarrow> True
       | Some p \<Rightarrow>
           (op \<noteq> Op_GET \<and> p_operation p \<noteq> op)
           \<or> (map_of (p_responses p) replica = Some c
               \<and> int (length (p_responses p)) < p_quorum p)))"


section \<open>A three-node example\<close>

text \<open>Node \<open>0\<close> of the nodes \<open>0\<close>, \<open>1\<close>, \<open>2\<close>, freshly constructed.\<close>

definition ex_node :: node where
  "ex_node = storage_node ''0'' [''0'', ''1'', ''2'']"

text \<open>The same node as coordinator of request 0, the client's \<open>GET\<close> of key \<open>x\<close> accepted
  at time 10, with the given quorum and the responses recorded so far.\<close>

definition ex_pending :: "int \<Rightarrow> (node_id \<times> cell) list \<Rightarrow> pending_request" where
  "ex_pending quorum rs =
     \<lparr>p_operation = Op_GET, p_key = ''x'', p_value = None,
      p_replicas = [''0'', ''1'', ''2''], p_quorum = quorum, p_responses = rs,
      p_timestamp_sent = 10, p_timestamp = None\<rparr>"

definition ex_get :: "int \<Rightarrow> (node_id \<times> cell) list \<Rightarrow> node" where
  "ex_get quorum rs =
     ex_node\<lparr>self_request_counter := 1, self_pending_requests := [0 \<mapsto> ex_pending quorum rs]\<rparr>"

text \<open>The same node as coordinator of request 0 when the client's request, accepted at
  time 10, is the \<open>PUT\<close> of \<open>w\<close> to key \<open>x\<close>, or the \<open>DELETE\<close> of key \<open>x\<close>.\<close>

definition ex_put_pending :: "int \<Rightarrow> (node_id \<times> cell) list \<Rightarrow> pending_request" where
  "ex_put_pending quorum rs =
     \<lparr>p_operation = Op_PUT, p_key = ''x'', p_value = Some ''w'',
      p_replicas = [''0'', ''1'', ''2''], p_quorum = quorum, p_responses = rs,
      p_timestamp_sent = 10, p_timestamp = Some 10\<rparr>"

definition ex_put :: "int \<Rightarrow> (node_id \<times> cell) list \<Rightarrow> node" where
  "ex_put quorum rs =
     ex_node\<lparr>self_request_counter := 1,
             self_pending_requests := [0 \<mapsto> ex_put_pending quorum rs]\<rparr>"

definition ex_delete_pending :: "int \<Rightarrow> (node_id \<times> cell) list \<Rightarrow> pending_request" where
  "ex_delete_pending quorum rs =
     \<lparr>p_operation = Op_DELETE, p_key = ''x'', p_value = None,
      p_replicas = [''0'', ''1'', ''2''], p_quorum = quorum, p_responses = rs,
      p_timestamp_sent = 10, p_timestamp = Some 10\<rparr>"

definition ex_delete :: "int \<Rightarrow> (node_id \<times> cell) list \<Rightarrow> node" where
  "ex_delete quorum rs =
     ex_node\<lparr>self_request_counter := 1,
             self_pending_requests := [0 \<mapsto> ex_delete_pending quorum rs]\<rparr>"

text \<open>A replica of the same three nodes that holds the given cell for key \<open>x\<close>.\<close>

definition ex_replica :: "node_id \<Rightarrow> cell \<Rightarrow> node" where
  "ex_replica node_id c = (storage_node node_id [''0'', ''1'', ''2''])\<lparr>self_data := [''x'' \<mapsto> c]\<rparr>"

section \<open>What one call does to the request table\<close>

lemma on_message_response:
  assumes "response_of m = Some (op, rid, replica, c)"
  shows "on_message s m sender =
    (case self_pending_requests s rid of
       None \<Rightarrow> Inr (s, [])
     | Some p \<Rightarrow>
         if op \<noteq> Op_GET \<and> p_operation p \<noteq> op then Inr (s, [])
         else if int (length (dict_set (p_responses p) replica c)) \<ge> p_quorum p
           then Inr (s\<lparr>self_pending_requests := (self_pending_requests s)(rid := None)\<rparr>,
                     (if op = Op_GET
                      then repair_loop (p_key p) (best_cell (dict_set (p_responses p) replica c))
                             (dict_set (p_responses p) replica c)
                      else [])
                     @ [Send_local (reply op (p_key p)
                          (fst (best_cell (dict_set (p_responses p) replica c))))])
           else Inr (s\<lparr>self_pending_requests := (self_pending_requests s)(rid \<mapsto>
                          p\<lparr>p_responses := dict_set (p_responses p) replica c\<rparr>)\<rparr>, []))"
  using assms
  by (cases m)
     (auto simp: handle_replica_get_resp_def handle_replica_put_resp_def
        handle_replica_delete_resp_def finalize_get_def finalize_put_def finalize_delete_def
        Let_def split: option.splits)

lemma on_message_other:
  assumes "response_of m = None"
  shows "\<exists>s' outs. on_message s m sender = Inr (s', outs)
           \<and> self_pending_requests s' = self_pending_requests s
           \<and> self_request_counter s' = self_request_counter s"
  using assms
  by (cases m)
     (auto simp: handle_replica_get_req_def handle_replica_put_req_def
        handle_replica_delete_req_def handle_replica_read_repair_def split: prod.splits)

lemma on_local_message_request:
  assumes "request_of m = Some (op, key, q)"
  shows "on_local_message s m now =
    (case get_key_replicas key (self_node_count s) of
       Inl e \<Rightarrow> Inl e
     | Inr replicas \<Rightarrow>
         Inr (s\<lparr>self_request_counter := self_request_counter s + 1,
                  self_pending_requests := (self_pending_requests s)(self_request_counter s \<mapsto>
                    \<lparr>p_operation = op, p_key = key,
                     p_value = (case m of PUT k v q' \<Rightarrow> v | _ \<Rightarrow> None),
                     p_replicas = replicas, p_quorum = q, p_responses = [],
                     p_timestamp_sent = now,
                     p_timestamp = (if op = Op_GET then None else Some now)\<rparr>)\<rparr>,
              map (\<lambda>replica. Send (case m of
                      PUT k v q' \<Rightarrow> REPLICA_PUT_REQ key v (self_request_counter s) (self_id s) now
                    | DELETE k q' \<Rightarrow> REPLICA_DELETE_REQ key (self_request_counter s) (self_id s) now
                    | _ \<Rightarrow> REPLICA_GET_REQ key (self_request_counter s) (self_id s)) replica)
                replicas))"
  using assms
  by (cases m)
     (auto simp: handle_local_get_def handle_local_put_def handle_local_delete_def Let_def
        split: sum.splits)

lemma on_local_message_other:
  assumes "request_of m = None"
  shows "on_local_message s m now = Inr (s, [])"
  using assms by (cases m) auto


lemma step_effect:
  assumes "step s ev = Inr (s', outs)"
  shows "(self_pending_requests s' = self_pending_requests s
            \<and> self_request_counter s' = self_request_counter s)
       \<or> (\<exists>p. self_request_counter s' = self_request_counter s + 1
              \<and> self_pending_requests s'
                  = (self_pending_requests s)(self_request_counter s \<mapsto> p))
       \<or> (\<exists>rid p. response_for rid ev \<and> self_pending_requests s rid = Some p
              \<and> self_request_counter s' = self_request_counter s
              \<and> ((\<exists>p'. self_pending_requests s' = (self_pending_requests s)(rid \<mapsto> p'))
                   \<or> self_pending_requests s' = (self_pending_requests s)(rid := None)))"
proof (cases ev)
  case (Local_message m now)
  show ?thesis
  proof (cases "request_of m")
    case None
    then show ?thesis using assms Local_message by (simp add: on_local_message_other)
  next
    case (Some r)
    then obtain op key q where r: "request_of m = Some (op, key, q)" by (cases r) auto
    obtain replicas where "get_key_replicas key (self_node_count s) = Inr replicas"
      using assms Local_message r
      by (cases "get_key_replicas key (self_node_count s)")
         (simp_all add: on_local_message_request)
    then have "\<exists>p. self_request_counter s' = self_request_counter s + 1
              \<and> self_pending_requests s'
                  = (self_pending_requests s)(self_request_counter s \<mapsto> p)"
      using assms Local_message r by (auto simp: on_local_message_request)
    then show ?thesis by blast
  qed
next
  case (Message m sender)
  show ?thesis
  proof (cases "response_of m")
    case None
    then show ?thesis using assms Message on_message_other [OF None, of s sender] by auto
  next
    case (Some r)
    then obtain op rid replica c where r: "response_of m = Some (op, rid, replica, c)"
      by (cases r) auto
    show ?thesis
    proof (cases "self_pending_requests s rid")
      case None
      then show ?thesis using assms Message r by (simp add: on_message_response)
    next
      case (Some p)
      have rf: "response_for rid ev" using Message r by simp
      have "(self_pending_requests s' = self_pending_requests s
               \<or> (\<exists>p'. self_pending_requests s' = (self_pending_requests s)(rid \<mapsto> p'))
               \<or> self_pending_requests s' = (self_pending_requests s)(rid := None))
            \<and> self_request_counter s' = self_request_counter s"
        using assms Message r Some
        by (auto simp: on_message_response split: if_splits)
      then show ?thesis using rf Some by blast
    qed
  qed
next
  case (Timer x)
  then show ?thesis using assms by (simp add: on_timer_def)
qed

lemma step_counter:
  assumes "step s ev = Inr (s', outs)"
  shows "self_request_counter s \<le> self_request_counter s'"
  using step_effect [OF assms] by auto

lemma step_pending_other:
  assumes "step s ev = Inr (s', outs)" and "\<not> response_for rid ev"
    and "rid \<noteq> self_request_counter s"
  shows "self_pending_requests s' rid = self_pending_requests s rid"
  using step_effect [OF assms(1)] assms(2,3) by auto

lemma step_pending_none:
  assumes "step s ev = Inr (s', outs)" and "self_pending_requests s rid = None"
    and "rid \<noteq> self_request_counter s"
  shows "self_pending_requests s' rid = None"
  using step_effect [OF assms(1)] assms(2,3) by auto

lemma step_ids_below_counter:
  assumes "step s ev = Inr (s', outs)" and "ids_below_counter s"
  shows "ids_below_counter s'"
  using step_effect [OF assms(1)] assms(2)
  by (fastforce simp: ids_below_counter_def split: if_splits)

lemma finalizations_dead:
  assumes "self_pending_requests s rid = None" and "rid < self_request_counter s"
  shows "finalizations rid s evs = 0"
  using assms
proof (induction evs arbitrary: s)
  case Nil
  then show ?case by simp
next
  case (Cons ev evs)
  show ?case
  proof (cases "step s ev")
    case (Inl e)
    then show ?thesis by simp
  next
    case (Inr r)
    then obtain s' outs where st: "step s ev = Inr (s', outs)" by (cases r) auto
    have "self_pending_requests s' rid = None"
      using step_pending_none [OF st Cons.prems(1)] Cons.prems(2) by simp
    moreover have "rid < self_request_counter s'"
      using step_counter [OF st] Cons.prems(2) by simp
    ultimately have "finalizations rid s' evs = 0" by (rule Cons.IH)
    then show ?thesis using st Cons.prems(1) by simp
  qed
qed

lemma finalizations_at_most_once:
  assumes "ids_below_counter s"
  shows "finalizations rid s evs \<le> 1"
  using assms
proof (induction evs arbitrary: s)
  case Nil
  then show ?case by simp
next
  case (Cons ev evs)
  show ?case
  proof (cases "step s ev")
    case (Inl e)
    then show ?thesis by simp
  next
    case (Inr r)
    then obtain s' outs where st: "step s ev = Inr (s', outs)" by (cases r) auto
    have inv': "ids_below_counter s'" using step_ids_below_counter [OF st Cons.prems] .
    show ?thesis
    proof (cases "self_pending_requests s rid \<noteq> None \<and> self_pending_requests s' rid = None")
      case True
      then have "rid < self_request_counter s"
        using Cons.prems by (simp add: ids_below_counter_def)
      then have "rid < self_request_counter s'" using step_counter [OF st] by simp
      then have "finalizations rid s' evs = 0" using True finalizations_dead by blast
      then show ?thesis using st True by simp
    next
      case False
      then show ?thesis using st Cons.IH [OF inv'] by auto
    qed
  qed
qed

section \<open>The replica-side merge\<close>

lemma should_update_iff:
  "should_update (v, t) (cv, ct) \<longleftrightarrow>
     ct < t \<or> (t = ct \<and> (case v of None \<Rightarrow> False
                           | Some x \<Rightarrow> (case cv of None \<Rightarrow> True | Some y \<Rightarrow> y < x)))"
  by (auto split: option.splits)

lemma merge_commute: "merge a b = merge b a"
  by (cases a; cases b) (auto simp: merge_def should_update_iff split: option.splits)

lemma merge_assoc: "merge a (merge b c) = merge (merge a b) c"
  by (cases a; cases b; cases c) (auto simp: merge_def should_update_iff split: option.splits)

lemma merge_idem: "merge a a = a"
  by (simp add: merge_def)

lemma put_req_merges:
  "data_get (self_data (fst (handle_replica_put_req s key v request_id coordinator t))) key
     = merge (v, t) (data_get (self_data s) key)"
  by (cases "data_get (self_data s) key")
     (simp add: handle_replica_put_req_def merge_def data_get_def)

lemma read_repair_merges:
  "data_get (self_data (fst (handle_replica_read_repair s key v t))) key
     = merge (v, t) (data_get (self_data s) key)"
  by (simp add: handle_replica_read_repair_def merge_def data_get_def)

text \<open>
  C6. The cell a replica holds for the key after \<open>REPLICA_PUT_REQ\<close> or
  \<open>REPLICA_READ_REPAIR\<close> is the merge of the incoming cell with the cell it held, and this
  merge is commutative, associative and idempotent on all cells.
\<close>

theorem merge_semilattice:
  "merge a b = merge b a
   \<and> merge a (merge b c) = merge (merge a b) c
   \<and> merge a a = a
   \<and> data_get (self_data (fst (handle_replica_put_req s key v request_id coordinator t))) key
       = merge (v, t) (data_get (self_data s) key)
   \<and> data_get (self_data (fst (handle_replica_read_repair s key v t))) key
       = merge (v, t) (data_get (self_data s) key)"
  by (intro conjI merge_commute merge_assoc merge_idem put_req_merges read_repair_merges)

theorem merge_semilattice_witness:
  "merge (Some ''apple'', 5) (Some ''banana'', 5) = merge (Some ''banana'', 5) (Some ''apple'', 5)
   \<and> merge (Some ''banana'', 5) (Some ''apple'', 5) = (Some ''banana'', 5)
   \<and> merge (None, 5) (merge (Some ''apple'', 5) (None, 7))
       = merge (merge (None, 5) (Some ''apple'', 5)) (None, 7)
   \<and> merge (merge (None, 5) (Some ''apple'', 5)) (None, 7) = (None, 7)"
  using merge_semilattice [of "(Some ''apple'', 5)" "(Some ''banana'', 5)"]
        merge_semilattice [of "(None, 5)" "(Some ''apple'', 5)" "(None, 7)"]
  by (simp add: merge_def)

section \<open>What placement computes\<close>

lemma storage_node_count: "self_node_count (storage_node node_id nodes) = int (length nodes)"
  by (simp add: storage_node_def)

lemma get_key_replicas_eq:
  assumes "N \<noteq> 0"
  shows "get_key_replicas key N =
           Inr [str (from_bytes_little (md5 key) mod N),
                str ((from_bytes_little (md5 key) + 1) mod N),
                str ((from_bytes_little (md5 key) + 2) mod N)]"
  using assms
  by (simp add: get_key_replicas_def get_next_replica_def numeral_3_eq_3 Let_def mod_simps
        add.commute del: str.simps)

lemma key_hash_x: "from_bytes_little (md5 ''x'') = 221188521546444818284084528980898927773"
  by code_simp

section \<open>The example node\<close>

lemma replicas_x: "get_key_replicas ''x'' 3 = Inr [''0'', ''1'', ''2'']"
  by (simp add: get_key_replicas_eq key_hash_x digit_char_def)

lemma ex_node_count: "self_node_count ex_node = 3"
  by (simp add: ex_node_def storage_node_def)

lemma ex_node_pending: "self_pending_requests ex_node = Map.empty"
  by (simp add: ex_node_def storage_node_def)

lemma ex_get_created:
  "run ex_node [Local_message (GET ''x'' quorum) 10]
     = Inr (ex_get quorum [],
            [Send (REPLICA_GET_REQ ''x'' 0 ''0'') ''0'',
             Send (REPLICA_GET_REQ ''x'' 0 ''0'') ''1'',
             Send (REPLICA_GET_REQ ''x'' 0 ''0'') ''2''])"
  by (simp add: handle_local_get_def replicas_x ex_node_count ex_get_def ex_pending_def)
     (simp add: ex_node_def storage_node_def)

lemma ex_get_ids_below_counter: "ids_below_counter (ex_get quorum rs)"
  by (simp add: ids_below_counter_def ex_get_def ex_pending_def)

lemma ex_node_counter: "self_request_counter ex_node = 0"
  by (simp add: ex_node_def storage_node_def)

lemma ex_node_id: "self_id ex_node = ''0''"
  by (simp add: ex_node_def storage_node_def)

lemmas ex_simps = ex_node_counter ex_node_id handle_local_get_def handle_local_put_def handle_local_delete_def
  replicas_x ex_node_count ex_node_pending
  handle_replica_get_resp_def handle_replica_put_resp_def handle_replica_delete_resp_def
  finalize_get_def finalize_put_def finalize_delete_def best_cell_def Let_def

lemma ex_node_update [simp]:
  "ex_node\<lparr>self_request_counter := 1, self_pending_requests := Map.empty\<rparr>
     = ex_node\<lparr>self_request_counter := 1\<rparr>"
  by (simp add: ex_node_def storage_node_def)

lemma ex_put_created:
  "run ex_node [Local_message (PUT ''x'' (Some ''w'') quorum) 10]
     = Inr (ex_put quorum [],
            [Send (REPLICA_PUT_REQ ''x'' (Some ''w'') 0 ''0'' 10) ''0'',
             Send (REPLICA_PUT_REQ ''x'' (Some ''w'') 0 ''0'' 10) ''1'',
             Send (REPLICA_PUT_REQ ''x'' (Some ''w'') 0 ''0'' 10) ''2''])"
  by (simp add: ex_simps ex_put_def ex_put_pending_def)

lemma ex_delete_created:
  "run ex_node [Local_message (DELETE ''x'' quorum) 10]
     = Inr (ex_delete quorum [],
            [Send (REPLICA_DELETE_REQ ''x'' 0 ''0'' 10) ''0'',
             Send (REPLICA_DELETE_REQ ''x'' 0 ''0'' 10) ''1'',
             Send (REPLICA_DELETE_REQ ''x'' 0 ''0'' 10) ''2''])"
  by (simp add: ex_simps ex_delete_def ex_delete_pending_def)

section \<open>Finalization happens at most once\<close>

lemma response_dropped:
  assumes "self_pending_requests s rid = None" and "response_for rid ev"
  shows "step s ev = Inr (s, [])"
proof -
  obtain m sender where ev: "ev = Message m sender" using assms(2) by (cases ev) auto
  with assms(2) obtain op replica c where "response_of m = Some (op, rid, replica, c)"
    by (auto split: option.splits)
  then show ?thesis using assms(1) ev by (simp add: on_message_response)
qed

lemma finalizer_removes:
  assumes "finalizer op s rid = Inr (s', outs)"
  shows "self_pending_requests s' rid = None"
  using assms
  by (cases op)
     (auto simp: finalize_get_def finalize_put_def finalize_delete_def Let_def
        split: option.splits)

lemma run_dead:
  assumes "self_pending_requests s rid = None" and "rid < self_request_counter s"
    and "run s evs = Inr (s', outs)"
  shows "self_pending_requests s' rid = None \<and> rid < self_request_counter s'
         \<and> emitted_for rid s evs = []"
  using assms
proof (induction evs arbitrary: s outs)
  case Nil
  then show ?case by simp
next
  case (Cons ev evs)
  from Cons.prems(3) obtain s1 o1 o2 where st: "step s ev = Inr (s1, o1)"
    and rn: "run s1 evs = Inr (s', o2)"
    by (auto split: sum.splits prod.splits)
  have n1: "self_pending_requests s1 rid = None"
    using step_pending_none [OF st Cons.prems(1)] Cons.prems(2) by simp
  have c1: "rid < self_request_counter s1"
    using step_counter [OF st] Cons.prems(2) by simp
  have "response_for rid ev \<Longrightarrow> o1 = []"
    using response_dropped [OF Cons.prems(1)] st by simp
  then show ?case using Cons.IH [OF n1 c1 rn] st by simp
qed

lemma storage_node_ids_below_counter: "ids_below_counter (storage_node node_id nodes)"
  by (simp add: ids_below_counter_def storage_node_def)

lemma run_ids_below_counter:
  assumes "run s evs = Inr (s', outs)" and "ids_below_counter s"
  shows "ids_below_counter s'"
  using assms
proof (induction evs arbitrary: s outs)
  case Nil
  then show ?case by simp
next
  case (Cons ev evs)
  from Cons.prems(1) obtain s1 o1 o2 where st: "step s ev = Inr (s1, o1)"
    and rn: "run s1 evs = Inr (s', o2)"
    by (auto split: sum.splits prod.splits)
  show ?case using Cons.IH [OF rn step_ids_below_counter [OF st Cons.prems(2)]] .
qed

lemma finalizer_pending:
  assumes "self_pending_requests s rid = Some p"
  shows "finalizer op s rid =
           Inr (s\<lparr>self_pending_requests := (self_pending_requests s)(rid := None)\<rparr>,
                (if op = Op_GET
                 then repair_loop (p_key p) (best_cell (p_responses p)) (p_responses p)
                 else [])
                @ [Send_local (reply op (p_key p) (fst (best_cell (p_responses p))))])"
  using assms
  by (cases op) (simp_all add: finalize_get_def finalize_put_def finalize_delete_def Let_def)

text \<open>
  C7. In every execution of a node from its initial state, and from every state whose
  pending identifiers are below the counter, a request leaves the table at most once. The
  finalizer of each operation, called on a pending request, returns without an exception,
  removes the request from the table and emits the client reply (after the repairs, for
  GET); whenever a finalizer returns, the request is gone. A response that carries a request
  identifier without a record (finalized before, or never created) is dropped: the state is
  unchanged and nothing is emitted. After the step that finalizes a request the request
  never comes back, and nothing is emitted for any later response to it.
\<close>

theorem finalized_once:
  "finalizations rid (storage_node node_id nodes) evs \<le> 1
   \<and> (ids_below_counter s \<longrightarrow> finalizations rid s evs \<le> 1)
   \<and> (finalizer op sf rid = Inr (sf', outsf) \<longrightarrow> self_pending_requests sf' rid = None)
   \<and> (self_pending_requests sp rid = Some p
        \<longrightarrow> finalizer op sp rid =
             Inr (sp\<lparr>self_pending_requests := (self_pending_requests sp)(rid := None)\<rparr>,
                  (if op = Op_GET
                   then repair_loop (p_key p) (best_cell (p_responses p)) (p_responses p)
                   else [])
                  @ [Send_local (reply op (p_key p) (fst (best_cell (p_responses p))))]))
   \<and> (self_pending_requests sd rid = None \<and> response_for rid (Message msg sender)
        \<longrightarrow> on_message sd msg sender = Inr (sd, []))
   \<and> (ids_below_counter s \<and> self_pending_requests s rid \<noteq> None
        \<and> step s ev = Inr (s1, outs1) \<and> self_pending_requests s1 rid = None
        \<and> run s1 evs' = Inr (s2, outs2)
        \<longrightarrow> self_pending_requests s2 rid = None \<and> emitted_for rid s1 evs' = [])"
proof (intro conjI impI)
  show "finalizations rid (storage_node node_id nodes) evs \<le> 1"
    by (rule finalizations_at_most_once [OF storage_node_ids_below_counter])
next
  assume "ids_below_counter s"
  then show "finalizations rid s evs \<le> 1" by (rule finalizations_at_most_once)
next
  assume "finalizer op sf rid = Inr (sf', outsf)"
  then show "self_pending_requests sf' rid = None" by (rule finalizer_removes)
next
  assume "self_pending_requests sp rid = Some p"
  then show "finalizer op sp rid =
             Inr (sp\<lparr>self_pending_requests := (self_pending_requests sp)(rid := None)\<rparr>,
                  (if op = Op_GET
                   then repair_loop (p_key p) (best_cell (p_responses p)) (p_responses p)
                   else [])
                  @ [Send_local (reply op (p_key p) (fst (best_cell (p_responses p))))])"
    by (rule finalizer_pending)
next
  assume "self_pending_requests sd rid = None \<and> response_for rid (Message msg sender)"
  then show "on_message sd msg sender = Inr (sd, [])"
    using response_dropped [of sd rid "Message msg sender"] by simp
next
  assume a: "ids_below_counter s \<and> self_pending_requests s rid \<noteq> None
        \<and> step s ev = Inr (s1, outs1) \<and> self_pending_requests s1 rid = None
        \<and> run s1 evs' = Inr (s2, outs2)"
  then have "rid < self_request_counter s" by (simp add: ids_below_counter_def)
  then have c: "rid < self_request_counter s1" using a step_counter by fastforce
  show "self_pending_requests s2 rid = None" using run_dead c a by blast
  show "emitted_for rid s1 evs' = []" using run_dead c a by blast
qed

theorem finalized_once_witness:
  "ids_below_counter (ex_get 1 [])
   \<and> finalizations 0 (ex_get 1 [])
        [Message (REPLICA_GET_RESP ''x'' (Some ''v'') 3 0 ''1'') ''1'',
         Message (REPLICA_GET_RESP ''x'' None (- 1) 0 ''2'') ''2'',
         Message (REPLICA_GET_RESP ''x'' (Some ''v'') 3 0 ''1'') ''1''] \<le> 1
   \<and> self_pending_requests (ex_get 1 [(''1'', (Some ''v'', 3))]) 0
       = Some (ex_pending 1 [(''1'', (Some ''v'', 3))])
   \<and> finalizer Op_GET (ex_get 1 [(''1'', (Some ''v'', 3))]) 0
       = Inr (ex_node\<lparr>self_request_counter := 1\<rparr>, [Send_local (GET_RESP ''x'' (Some ''v''))])
   \<and> self_pending_requests (ex_put 1 [(''1'', (Some ''v'', 3))]) 0
       = Some (ex_put_pending 1 [(''1'', (Some ''v'', 3))])
   \<and> finalizer Op_PUT (ex_put 1 [(''1'', (Some ''v'', 3))]) 0
       = Inr (ex_node\<lparr>self_request_counter := 1\<rparr>, [Send_local (PUT_RESP ''x'' (Some ''v''))])
   \<and> self_pending_requests (ex_delete 1 [(''1'', (Some ''v'', 3))]) 0
       = Some (ex_delete_pending 1 [(''1'', (Some ''v'', 3))])
   \<and> finalizer Op_DELETE (ex_delete 1 [(''1'', (Some ''v'', 3))]) 0
       = Inr (ex_node\<lparr>self_request_counter := 1\<rparr>,
              [Send_local (DELETE_RESP ''x'' (Some ''v''))])
   \<and> self_pending_requests (ex_node\<lparr>self_request_counter := 1\<rparr>) 0 = None
   \<and> response_for 0 (Message (REPLICA_GET_RESP ''x'' None (- 1) 0 ''2'') ''2'')
   \<and> on_message (ex_node\<lparr>self_request_counter := 1\<rparr>)
        (REPLICA_GET_RESP ''x'' None (- 1) 0 ''2'') ''2''
       = Inr (ex_node\<lparr>self_request_counter := 1\<rparr>, [])
   \<and> self_pending_requests (ex_get 1 []) 0 \<noteq> None
   \<and> step (ex_get 1 []) (Message (REPLICA_GET_RESP ''x'' (Some ''v'') 3 0 ''1'') ''1'')
       = Inr (ex_node\<lparr>self_request_counter := 1\<rparr>, [Send_local (GET_RESP ''x'' (Some ''v''))])
   \<and> run (ex_node\<lparr>self_request_counter := 1\<rparr>)
        [Message (REPLICA_GET_RESP ''x'' None (- 1) 0 ''2'') ''2'',
         Message (REPLICA_GET_RESP ''x'' (Some ''v'') 3 0 ''1'') ''1'']
       = Inr (ex_node\<lparr>self_request_counter := 1\<rparr>, [])
   \<and> emitted_for 0 (ex_node\<lparr>self_request_counter := 1\<rparr>)
        [Message (REPLICA_GET_RESP ''x'' None (- 1) 0 ''2'') ''2'',
         Message (REPLICA_GET_RESP ''x'' (Some ''v'') 3 0 ''1'') ''1''] = []"
proof -
  let ?done = "ex_node\<lparr>self_request_counter := 1\<rparr>"
  let ?rs = "[(''1'', (Some ''v'', 3))]"
  let ?e1 = "Message (REPLICA_GET_RESP ''x'' (Some ''v'') 3 0 ''1'') ''1''"
  let ?e2 = "Message (REPLICA_GET_RESP ''x'' None (- 1) 0 ''2'') ''2''"
  have a: "ids_below_counter (ex_get 1 [])" by (rule ex_get_ids_below_counter)
  have e: "self_pending_requests ?done 0 = None"
    by (simp add: ex_node_def storage_node_def)
  have pg: "self_pending_requests (ex_get 1 ?rs) 0 = Some (ex_pending 1 ?rs)"
    by (simp add: ex_get_def)
  have pp: "self_pending_requests (ex_put 1 ?rs) 0 = Some (ex_put_pending 1 ?rs)"
    by (simp add: ex_put_def)
  have pd: "self_pending_requests (ex_delete 1 ?rs) 0 = Some (ex_delete_pending 1 ?rs)"
    by (simp add: ex_delete_def)
  have st: "step (ex_get 1 []) ?e1 = Inr (?done, [Send_local (GET_RESP ''x'' (Some ''v''))])"
    by (simp add: handle_replica_get_resp_def finalize_get_def ex_get_def ex_pending_def
          best_cell_def ex_node_def storage_node_def)
  have rn: "run ?done [?e2, ?e1] = Inr (?done, [])"
    by (simp add: handle_replica_get_resp_def ex_node_pending)
  have p: "self_pending_requests (ex_get 1 []) 0 \<noteq> None" by (simp add: ex_get_def)
  have rf: "response_for 0 ?e2" by simp
  note wg = finalized_once [where rid = 0 and s = "ex_get 1 []" and evs = "[?e1, ?e2, ?e1]"
      and op = Op_GET and sp = "ex_get 1 ?rs" and p = "ex_pending 1 ?rs"
      and sf = "ex_get 1 ?rs" and sf' = ?done
      and outsf = "[Send_local (GET_RESP ''x'' (Some ''v''))]"
      and sd = ?done and msg = "REPLICA_GET_RESP ''x'' None (- 1) 0 ''2''" and sender = "''2''"
      and ev = ?e1 and ?s1.0 = ?done and ?outs1.0 = "[Send_local (GET_RESP ''x'' (Some ''v''))]"
      and evs' = "[?e2, ?e1]" and ?s2.0 = ?done and ?outs2.0 = "[]"]
  note wp = finalized_once [where rid = 0 and op = Op_PUT and sp = "ex_put 1 ?rs"
      and p = "ex_put_pending 1 ?rs"]
  note wd = finalized_once [where rid = 0 and op = Op_DELETE and sp = "ex_delete 1 ?rs"
      and p = "ex_delete_pending 1 ?rs"]
  have fg_raw: "finalizer Op_GET (ex_get 1 ?rs) 0 =
             Inr ((ex_get 1 ?rs)\<lparr>self_pending_requests :=
                    (self_pending_requests (ex_get 1 ?rs))(0 := None)\<rparr>,
                  (if Op_GET = Op_GET
                   then repair_loop (p_key (ex_pending 1 ?rs))
                          (best_cell (p_responses (ex_pending 1 ?rs)))
                          (p_responses (ex_pending 1 ?rs))
                   else [])
                  @ [Send_local (reply Op_GET (p_key (ex_pending 1 ?rs))
                       (fst (best_cell (p_responses (ex_pending 1 ?rs)))))])"
    using wg pg by blast
  have fg: "finalizer Op_GET (ex_get 1 ?rs) 0
              = Inr (?done, [Send_local (GET_RESP ''x'' (Some ''v''))])"
    by (simp only: fg_raw) (simp add: best_cell_def ex_get_def ex_pending_def)
  have fp_raw: "finalizer Op_PUT (ex_put 1 ?rs) 0 =
             Inr ((ex_put 1 ?rs)\<lparr>self_pending_requests :=
                    (self_pending_requests (ex_put 1 ?rs))(0 := None)\<rparr>,
                  (if Op_PUT = Op_GET
                   then repair_loop (p_key (ex_put_pending 1 ?rs))
                          (best_cell (p_responses (ex_put_pending 1 ?rs)))
                          (p_responses (ex_put_pending 1 ?rs))
                   else [])
                  @ [Send_local (reply Op_PUT (p_key (ex_put_pending 1 ?rs))
                       (fst (best_cell (p_responses (ex_put_pending 1 ?rs)))))])"
    using wp pp by blast
  have fp: "finalizer Op_PUT (ex_put 1 ?rs) 0
              = Inr (?done, [Send_local (PUT_RESP ''x'' (Some ''v''))])"
    by (simp only: fp_raw) (simp add: best_cell_def ex_put_def ex_put_pending_def)
  have fd_raw: "finalizer Op_DELETE (ex_delete 1 ?rs) 0 =
             Inr ((ex_delete 1 ?rs)\<lparr>self_pending_requests :=
                    (self_pending_requests (ex_delete 1 ?rs))(0 := None)\<rparr>,
                  (if Op_DELETE = Op_GET
                   then repair_loop (p_key (ex_delete_pending 1 ?rs))
                          (best_cell (p_responses (ex_delete_pending 1 ?rs)))
                          (p_responses (ex_delete_pending 1 ?rs))
                   else [])
                  @ [Send_local (reply Op_DELETE (p_key (ex_delete_pending 1 ?rs))
                       (fst (best_cell (p_responses (ex_delete_pending 1 ?rs)))))])"
    using wd pd by blast
  have fd: "finalizer Op_DELETE (ex_delete 1 ?rs) 0
              = Inr (?done, [Send_local (DELETE_RESP ''x'' (Some ''v''))])"
    by (simp only: fd_raw) (simp add: best_cell_def ex_delete_def ex_delete_pending_def)
  show ?thesis using wg a e pg fg pp fp pd fd st rn p rf by blast
qed

section \<open>The winner computed by the finalizers\<close>

text \<open>
  Where no tombstone and concrete value share a timestamp (the sentinel \<open>(None, -1)\<close>
  counted among the cells), the loop of the finalizers returns an upper bound of all
  recorded cells in the reconciliation order, and it is one of them or the sentinel.
\<close>

lemma cell_le_refl: "cell_le c c"
  by (simp add: cell_le_def)

lemma cell_le_trans: "cell_le a b \<Longrightarrow> cell_le b c \<Longrightarrow> cell_le a c"
  by (cases a; cases b; cases c) (auto simp: cell_le_def split: option.splits)

lemma tie_free_subset: "tie_free cs \<Longrightarrow> set cs' \<subseteq> set cs \<Longrightarrow> tie_free cs'"
  unfolding tie_free_def by blast

lemma best_loop_step:
  assumes "tie_free ((bv, bt) # (v, t) # cs)"
  shows "\<exists>acc'. best_loop (bv, bt) ((replica, (v, t)) # rest) = best_loop acc' rest
           \<and> acc' \<in> {(bv, bt), (v, t)} \<and> cell_le (bv, bt) acc' \<and> cell_le (v, t) acc'"
proof -
  have "snd (v, t) = snd (bv, bt) \<longrightarrow> (fst (v, t) = None) = (fst (bv, bt) = None)"
    using assms unfolding tie_free_def by (meson list.set_intros)
  then have tie: "t = bt \<Longrightarrow> (v = None) = (bv = None)" by simp
  have tri: "bt < t \<or> t < bt \<or> t = bt" by linarith
  consider (later) "bt < t" | (earlier) "t < bt"
    | (tombstones) "t = bt" "v = None" "bv = None"
    | (concrete) x y where "t = bt" "v = Some x" "bv = Some y"
    using tie tri by (cases v; cases bv) auto
  then show ?thesis
  proof cases
    case later
    then have "best_loop (bv, bt) ((replica, (v, t)) # rest) = best_loop (v, t) rest
               \<and> cell_le (bv, bt) (v, t) \<and> cell_le (v, t) (v, t)"
      by (simp add: cell_le_def)
    then show ?thesis by blast
  next
    case earlier
    then have "best_loop (bv, bt) ((replica, (v, t)) # rest) = best_loop (bv, bt) rest
               \<and> cell_le (bv, bt) (bv, bt) \<and> cell_le (v, t) (bv, bt)"
      by (simp add: cell_le_def)
    then show ?thesis by blast
  next
    case tombstones
    then have "best_loop (bv, bt) ((replica, (v, t)) # rest) = best_loop (bv, bt) rest
               \<and> cell_le (bv, bt) (bv, bt) \<and> cell_le (v, t) (bv, bt)"
      by (simp add: cell_le_def)
    then show ?thesis by blast
  next
    case concrete
    show ?thesis
    proof (cases "y < x")
      case True
      then have "best_loop (bv, bt) ((replica, (v, t)) # rest) = best_loop (v, t) rest
               \<and> cell_le (bv, bt) (v, t) \<and> cell_le (v, t) (v, t)"
        using concrete by (simp add: cell_le_def)
      then show ?thesis by blast
    next
      case False
      then have "best_loop (bv, bt) ((replica, (v, t)) # rest) = best_loop (bv, bt) rest
               \<and> cell_le (bv, bt) (bv, bt) \<and> cell_le (v, t) (bv, bt)"
        using concrete by (auto simp: cell_le_def)
      then show ?thesis by blast
    qed
  qed
qed

lemma best_loop_upper:
  assumes "tie_free (acc # map snd rest)"
  shows "cell_le acc (best_loop acc rest)
         \<and> (\<forall>c\<in>snd ` set rest. cell_le c (best_loop acc rest))
         \<and> best_loop acc rest \<in> insert acc (snd ` set rest)"
  using assms
proof (induction rest arbitrary: acc)
  case Nil
  then show ?case by (simp add: cell_le_refl)
next
  case (Cons x rest)
  obtain replica v t where x: "x = (replica, (v, t))" by (cases x) auto
  obtain bv bt where acc: "acc = (bv, bt)" by (cases acc) auto
  have tf: "tie_free ((bv, bt) # (v, t) # map snd rest)" using Cons.prems x acc by simp
  from best_loop_step [OF tf, of replica rest]
  obtain acc' where st: "best_loop (bv, bt) ((replica, (v, t)) # rest) = best_loop acc' rest"
    and mem: "acc' \<in> {(bv, bt), (v, t)}"
    and le1: "cell_le (bv, bt) acc'" and le2: "cell_le (v, t) acc'" by blast
  have "set (acc' # map snd rest) \<subseteq> set ((bv, bt) # (v, t) # map snd rest)"
    using mem by auto
  then have "tie_free (acc' # map snd rest)" by (rule tie_free_subset [OF tf])
  note ih = Cons.IH [OF this]
  have "cell_le acc (best_loop acc (x # rest))"
    using ih le1 st x acc cell_le_trans by (metis (no_types, lifting))
  moreover have "cell_le (v, t) (best_loop acc (x # rest))"
    using ih le2 st x acc cell_le_trans by (metis (no_types, lifting))
  moreover have "\<forall>c\<in>snd ` set rest. cell_le c (best_loop acc (x # rest))"
    using ih st x acc by simp
  moreover have "best_loop acc (x # rest) \<in> insert acc (snd ` set (x # rest))"
    using ih st x acc mem by (simp only: st x acc) auto
  ultimately show ?case using x by simp
qed

lemma best_cell_upper:
  assumes "tie_free ((None, - 1) # map snd rs)"
  shows "(\<forall>c\<in>snd ` set rs. cell_le c (best_cell rs))
         \<and> best_cell rs \<in> insert (None, - 1) (snd ` set rs)"
  using best_loop_upper [OF assms] by (simp add: best_cell_def)

text \<open>
  C1. The three finalizers at two responses with equal timestamps, one a tombstone and one
  concrete: when the tombstone was recorded first the client is answered with the
  tombstone, when the concrete value was recorded first with the concrete value. The loop
  of the finalizers has no branch for a concrete value meeting a tombstone held as
  \<open>best_value\<close>; \<open>should_update\<close> on the replica side has one.
\<close>

theorem finalizers_tombstone_first:
  "run ex_node
     [Local_message (GET ''x'' 2) 10,
      Message (REPLICA_GET_RESP ''x'' None 5 0 ''0'') ''0'',
      Message (REPLICA_GET_RESP ''x'' (Some ''v'') 5 0 ''1'') ''1'']
   = Inr (ex_node\<lparr>self_request_counter := 1\<rparr>,
          [Send (REPLICA_GET_REQ ''x'' 0 ''0'') ''0'',
           Send (REPLICA_GET_REQ ''x'' 0 ''0'') ''1'',
           Send (REPLICA_GET_REQ ''x'' 0 ''0'') ''2'',
           Send (REPLICA_READ_REPAIR ''x'' None 5) ''1'',
           Send_local (GET_RESP ''x'' None)])
   \<and> run ex_node
     [Local_message (GET ''x'' 2) 10,
      Message (REPLICA_GET_RESP ''x'' (Some ''v'') 5 0 ''1'') ''1'',
      Message (REPLICA_GET_RESP ''x'' None 5 0 ''0'') ''0'']
   = Inr (ex_node\<lparr>self_request_counter := 1\<rparr>,
          [Send (REPLICA_GET_REQ ''x'' 0 ''0'') ''0'',
           Send (REPLICA_GET_REQ ''x'' 0 ''0'') ''1'',
           Send (REPLICA_GET_REQ ''x'' 0 ''0'') ''2'',
           Send (REPLICA_READ_REPAIR ''x'' (Some ''v'') 5) ''0'',
           Send_local (GET_RESP ''x'' (Some ''v''))])
   \<and> run ex_node
     [Local_message (PUT ''x'' (Some ''w'') 2) 3,
      Message (REPLICA_PUT_RESP ''x'' None 5 0 ''0'') ''0'',
      Message (REPLICA_PUT_RESP ''x'' (Some ''v'') 5 0 ''1'') ''1'']
   = Inr (ex_node\<lparr>self_request_counter := 1\<rparr>,
          [Send (REPLICA_PUT_REQ ''x'' (Some ''w'') 0 ''0'' 3) ''0'',
           Send (REPLICA_PUT_REQ ''x'' (Some ''w'') 0 ''0'' 3) ''1'',
           Send (REPLICA_PUT_REQ ''x'' (Some ''w'') 0 ''0'' 3) ''2'',
           Send_local (PUT_RESP ''x'' None)])
   \<and> run ex_node
     [Local_message (PUT ''x'' (Some ''w'') 2) 3,
      Message (REPLICA_PUT_RESP ''x'' (Some ''v'') 5 0 ''1'') ''1'',
      Message (REPLICA_PUT_RESP ''x'' None 5 0 ''0'') ''0'']
   = Inr (ex_node\<lparr>self_request_counter := 1\<rparr>,
          [Send (REPLICA_PUT_REQ ''x'' (Some ''w'') 0 ''0'' 3) ''0'',
           Send (REPLICA_PUT_REQ ''x'' (Some ''w'') 0 ''0'' 3) ''1'',
           Send (REPLICA_PUT_REQ ''x'' (Some ''w'') 0 ''0'' 3) ''2'',
           Send_local (PUT_RESP ''x'' (Some ''v''))])
   \<and> run ex_node
     [Local_message (DELETE ''x'' 2) 9,
      Message (REPLICA_DELETE_RESP ''x'' None 5 0 ''0'') ''0'',
      Message (REPLICA_DELETE_RESP ''x'' (Some ''v'') 5 0 ''1'') ''1'']
   = Inr (ex_node\<lparr>self_request_counter := 1\<rparr>,
          [Send (REPLICA_DELETE_REQ ''x'' 0 ''0'' 9) ''0'',
           Send (REPLICA_DELETE_REQ ''x'' 0 ''0'' 9) ''1'',
           Send (REPLICA_DELETE_REQ ''x'' 0 ''0'' 9) ''2'',
           Send_local (DELETE_RESP ''x'' None)])
   \<and> run ex_node
     [Local_message (DELETE ''x'' 2) 9,
      Message (REPLICA_DELETE_RESP ''x'' (Some ''v'') 5 0 ''1'') ''1'',
      Message (REPLICA_DELETE_RESP ''x'' None 5 0 ''0'') ''0'']
   = Inr (ex_node\<lparr>self_request_counter := 1\<rparr>,
          [Send (REPLICA_DELETE_REQ ''x'' 0 ''0'' 9) ''0'',
           Send (REPLICA_DELETE_REQ ''x'' 0 ''0'' 9) ''1'',
           Send (REPLICA_DELETE_REQ ''x'' 0 ''0'' 9) ''2'',
           Send_local (DELETE_RESP ''x'' (Some ''v''))])"
  by (simp add: ex_simps)

section \<open>Responses whose tag disagrees with the pending operation\<close>

lemma mismatched_put_delete_resp_dropped:
  assumes "response_of m = Some (op, rid, replica, c)" and "op \<noteq> Op_GET"
    and "self_pending_requests s rid = Some p" and "p_operation p \<noteq> op"
  shows "on_message s m sender = Inr (s, [])"
  using assms by (simp add: on_message_response)

text \<open>
  C2. \<open>_handle_replica_get_resp\<close> does not compare the operation: a \<open>REPLICA_GET_RESP\<close> that
  names a pending PUT with quorum 1 runs \<open>_finalize_get\<close>, which removes the request and
  answers the client with a \<open>GET_RESP\<close>; one that names a pending DELETE with quorum 2 is
  recorded in the responses of that request.
\<close>

theorem mismatched_get_resp_accepted:
  "run ex_node
     [Local_message (PUT ''x'' (Some ''w'') 1) 10,
      Message (REPLICA_GET_RESP ''x'' None (- 1) 0 ''2'') ''2'']
   = Inr (ex_node\<lparr>self_request_counter := 1\<rparr>,
          [Send (REPLICA_PUT_REQ ''x'' (Some ''w'') 0 ''0'' 10) ''0'',
           Send (REPLICA_PUT_REQ ''x'' (Some ''w'') 0 ''0'' 10) ''1'',
           Send (REPLICA_PUT_REQ ''x'' (Some ''w'') 0 ''0'' 10) ''2'',
           Send_local (GET_RESP ''x'' None)])
   \<and> run ex_node
     [Local_message (DELETE ''x'' 2) 10,
      Message (REPLICA_GET_RESP ''x'' (Some ''v'') 3 0 ''2'') ''2'']
   = Inr (ex_node\<lparr>self_request_counter := 1,
            self_pending_requests := [0 \<mapsto>
              \<lparr>p_operation = Op_DELETE, p_key = ''x'', p_value = None,
               p_replicas = [''0'', ''1'', ''2''], p_quorum = 2,
               p_responses = [(''2'', (Some ''v'', 3))],
               p_timestamp_sent = 10, p_timestamp = Some 10\<rparr>]\<rparr>,
          [Send (REPLICA_DELETE_REQ ''x'' 0 ''0'' 10) ''0'',
           Send (REPLICA_DELETE_REQ ''x'' 0 ''0'' 10) ''1'',
           Send (REPLICA_DELETE_REQ ''x'' 0 ''0'' 10) ''2''])"
  by (simp add: ex_simps)

section \<open>Read repair\<close>

lemma cell_le_merge: "cell_le c (merge c cur)"
  by (cases c; cases cur) (auto simp: cell_le_def merge_def should_update_iff split: option.splits)

lemma read_repair_adopts:
  "cell_le (v, t) (data_get (self_data (fst (handle_replica_read_repair s key v t))) key)"
  by (simp add: read_repair_merges cell_le_merge)

lemma repair_loop_recipients:
  "Send msg replica \<in> set (repair_loop key best rs) \<Longrightarrow> replica \<in> fst ` set rs"
  by (induction key best rs rule: repair_loop.induct) (auto split: if_splits)

text \<open>When the winner is an upper bound of the recorded cells, the second loop of
  \<open>_finalize_get\<close> repairs exactly the replicas whose recorded cell is strictly less.\<close>

lemma repair_loop_iff:
  assumes "\<forall>c\<in>snd ` set rs. cell_le c best"
  shows "set (repair_loop key best rs)
           = {Send (REPLICA_READ_REPAIR key (fst best) (snd best)) replica | replica c.
                (replica, c) \<in> set rs \<and> cell_less c best}"
  using assms
proof (induction key best rs rule: repair_loop.induct)
  case (1 key best)
  then show ?case by simp
next
  case (2 key best_value best_timestamp replica v t rest)
  have le: "cell_le (v, t) (best_value, best_timestamp)" using "2.prems" by simp
  have c: "(t < best_timestamp \<or> (t = best_timestamp \<and> v \<noteq> best_value))
             = cell_less (v, t) (best_value, best_timestamp)"
    using le by (auto simp: cell_le_def split: option.splits)
  have ih: "set (repair_loop key (best_value, best_timestamp) rest)
           = {Send (REPLICA_READ_REPAIR key best_value best_timestamp) replica | replica c.
                (replica, c) \<in> set rest \<and> cell_less c (best_value, best_timestamp)}"
    using "2.IH" "2.prems" by (cases "t < best_timestamp \<or> (t = best_timestamp \<and> v \<noteq> best_value)") auto
  show ?case
    unfolding repair_loop.simps c
    by (cases "cell_less (v, t) (best_value, best_timestamp)") (auto simp: ih)
qed

text \<open>
  C4. A GET that finalizes on the responses \<open>(None, 5)\<close> from replica 0 and then
  \<open>(''v'', 5)\<close> from replica 1 sends one repair, to replica 1, carrying \<open>(None, 5)\<close>. The
  cell of replica 0 is the lesser one in the reconciliation order and gets no repair; the
  repair leaves replica 1 as it is.
\<close>

theorem read_repair_after_tombstone_first:
  "run ex_node
     [Local_message (GET ''x'' 2) 10,
      Message (REPLICA_GET_RESP ''x'' None 5 0 ''0'') ''0'',
      Message (REPLICA_GET_RESP ''x'' (Some ''v'') 5 0 ''1'') ''1'']
   = Inr (ex_node\<lparr>self_request_counter := 1\<rparr>,
          [Send (REPLICA_GET_REQ ''x'' 0 ''0'') ''0'',
           Send (REPLICA_GET_REQ ''x'' 0 ''0'') ''1'',
           Send (REPLICA_GET_REQ ''x'' 0 ''0'') ''2'',
           Send (REPLICA_READ_REPAIR ''x'' None 5) ''1'',
           Send_local (GET_RESP ''x'' None)])
   \<and> cell_less (None, 5) (Some ''v'', 5)
   \<and> handle_replica_read_repair (ex_replica ''1'' (Some ''v'', 5)) ''x'' None 5
       = (ex_replica ''1'' (Some ''v'', 5), [])"
  by (simp add: ex_simps handle_replica_read_repair_def ex_replica_def data_get_def)

section \<open>DELETE\<close>

lemma delete_req_overwrites:
  "handle_replica_delete_req s key request_id coordinator timestamp
     = (s\<lparr>self_data := (self_data s)(key \<mapsto> (None, timestamp))\<rparr>,
        [Send (REPLICA_DELETE_RESP key (fst (data_get (self_data s) key))
                 (snd (data_get (self_data s) key)) request_id (self_id s)) coordinator])"
  by (simp add: handle_replica_delete_req_def split: prod.splits)

text \<open>
  C5. Two replicas holding \<open>(None, 5)\<close> and \<open>(''v'', 5)\<close> for the key overwrite their cells
  with \<open>(None, 9)\<close> on the \<open>REPLICA_DELETE_REQ\<close> of time 9 and report the cells they held;
  the coordinator that records the two reports in this order answers the client with the
  tombstone, while the winner of the two reported cells in the reconciliation order is
  \<open>(''v'', 5)\<close>.
\<close>

theorem delete_after_tombstone_first:
  "handle_replica_delete_req (ex_replica ''0'' (None, 5)) ''x'' 0 ''0'' 9
     = (ex_replica ''0'' (None, 9), [Send (REPLICA_DELETE_RESP ''x'' None 5 0 ''0'') ''0''])
   \<and> handle_replica_delete_req (ex_replica ''1'' (Some ''v'', 5)) ''x'' 0 ''0'' 9
     = (ex_replica ''1'' (None, 9),
        [Send (REPLICA_DELETE_RESP ''x'' (Some ''v'') 5 0 ''1'') ''0''])
   \<and> run ex_node
     [Local_message (DELETE ''x'' 2) 9,
      Message (REPLICA_DELETE_RESP ''x'' None 5 0 ''0'') ''0'',
      Message (REPLICA_DELETE_RESP ''x'' (Some ''v'') 5 0 ''1'') ''1'']
   = Inr (ex_node\<lparr>self_request_counter := 1\<rparr>,
          [Send (REPLICA_DELETE_REQ ''x'' 0 ''0'' 9) ''0'',
           Send (REPLICA_DELETE_REQ ''x'' 0 ''0'' 9) ''1'',
           Send (REPLICA_DELETE_REQ ''x'' 0 ''0'' 9) ''2'',
           Send_local (DELETE_RESP ''x'' None)])
   \<and> cell_less (None, 5) (Some ''v'', 5)"
  by (simp add: ex_simps handle_replica_delete_req_def ex_replica_def data_get_def
        storage_node_def)

section \<open>State separation\<close>

text \<open>
  C9. The handlers of \<open>REPLICA_GET_REQ\<close>, \<open>REPLICA_PUT_REQ\<close>, \<open>REPLICA_DELETE_REQ\<close> and
  \<open>REPLICA_READ_REPAIR\<close> leave the table of pending requests and the request counter as
  they are, and \<open>REPLICA_GET_REQ\<close> leaves the whole node as it is. The three response
  handlers return without an exception and leave the local store as it is; so does each
  finalizer, unless its \<open>pop\<close> raises because the request is not in the table.
\<close>

theorem frame_separation:
  "fst (handle_replica_get_req s key request_id coordinator) = s
   \<and> self_pending_requests (fst (handle_replica_put_req s key v request_id coordinator t))
       = self_pending_requests s
   \<and> self_request_counter (fst (handle_replica_put_req s key v request_id coordinator t))
       = self_request_counter s
   \<and> self_pending_requests (fst (handle_replica_delete_req s key request_id coordinator t))
       = self_pending_requests s
   \<and> self_request_counter (fst (handle_replica_delete_req s key request_id coordinator t))
       = self_request_counter s
   \<and> self_pending_requests (fst (handle_replica_read_repair s key v t))
       = self_pending_requests s
   \<and> self_request_counter (fst (handle_replica_read_repair s key v t))
       = self_request_counter s
   \<and> (case handle_replica_get_resp s v t request_id replica of
         Inl e \<Rightarrow> False | Inr (s', outs) \<Rightarrow> self_data s' = self_data s)
   \<and> (case handle_replica_put_resp s v t request_id replica of
         Inl e \<Rightarrow> False | Inr (s', outs) \<Rightarrow> self_data s' = self_data s)
   \<and> (case handle_replica_delete_resp s v t request_id replica of
         Inl e \<Rightarrow> False | Inr (s', outs) \<Rightarrow> self_data s' = self_data s)
   \<and> (case finalize_get s request_id of
         Inl e \<Rightarrow> self_pending_requests s request_id = None
       | Inr (s', outs) \<Rightarrow> self_data s' = self_data s)
   \<and> (case finalize_put s request_id of
         Inl e \<Rightarrow> self_pending_requests s request_id = None
       | Inr (s', outs) \<Rightarrow> self_data s' = self_data s)
   \<and> (case finalize_delete s request_id of
         Inl e \<Rightarrow> self_pending_requests s request_id = None
       | Inr (s', outs) \<Rightarrow> self_data s' = self_data s)"
  by (auto simp: handle_replica_get_req_def handle_replica_put_req_def
        handle_replica_delete_req_def handle_replica_read_repair_def
        handle_replica_get_resp_def handle_replica_put_resp_def handle_replica_delete_resp_def
        finalize_get_def finalize_put_def finalize_delete_def Let_def
        split: prod.splits option.splits)

section \<open>Placement and the node list\<close>

text \<open>
  C3, as stated, fails: for the nodes \<open>C\<close>, \<open>A\<close>, \<open>B\<close> and the key \<open>x\<close> the node computes the
  replicas \<open>0\<close>, \<open>1\<close>, \<open>2\<close>, none of them an entry of the node list, where the sorted list's
  entries at the three indices are \<open>A\<close>, \<open>B\<close>, \<open>C\<close>.
\<close>

theorem placement_not_node_entries:
  "get_key_replicas ''x'' (self_node_count (storage_node ''A'' [''C'', ''A'', ''B'']))
     = Inr [''0'', ''1'', ''2'']
   \<and> spec_replicas_of ''x'' [''C'', ''A'', ''B''] = [''A'', ''B'', ''C'']
   \<and> get_key_replicas ''x'' (self_node_count (storage_node ''A'' [''C'', ''A'', ''B'']))
       \<noteq> Inr (spec_replicas_of ''x'' [''C'', ''A'', ''B''])"
  by (simp add: storage_node_count replicas_x spec_replicas_of_def key_hash_x Let_def)

lemma placement_agrees_iff:
  assumes "nodes \<noteq> []"
  shows "(get_key_replicas key (self_node_count (storage_node node_id nodes))
            = Inr (spec_replicas_of key nodes))
         = (sort nodes ! nat (from_bytes_little (md5 key) mod int (length nodes))
              = str (from_bytes_little (md5 key) mod int (length nodes))
            \<and> sort nodes ! nat ((from_bytes_little (md5 key) + 1) mod int (length nodes))
              = str ((from_bytes_little (md5 key) + 1) mod int (length nodes))
            \<and> sort nodes ! nat ((from_bytes_little (md5 key) + 2) mod int (length nodes))
              = str ((from_bytes_little (md5 key) + 2) mod int (length nodes)))"
proof -
  have N: "int (length nodes) \<noteq> 0" using assms by simp
  show ?thesis
    by (simp only: storage_node_count get_key_replicas_eq [OF N] spec_replicas_of_def Let_def
          length_sort mod_simps sum.inject list.inject) (auto simp del: str.simps)
qed

text \<open>
  C3, amended. With \<open>H\<close> the MD5 digest of the key read as an unsigned little-endian
  integer and \<open>N\<close> the number of nodes: for every key and every non-empty node list the
  node computes exactly three identifiers, the decimal numerals of \<open>H mod N\<close>,
  \<open>(H + 1) mod N\<close> and \<open>(H + 2) mod N\<close>; the node list enters through its length only.
  These are the sorted list's entries at those indices if the sorted node list is the list
  of the decimal numerals of its own positions; for a given key, they are those entries
  exactly when the sorted list's entry at each of the three indices is the decimal numeral
  of that index. With an empty node list the computation raises \<open>ZeroDivisionError\<close>.
\<close>

theorem placement_by_index:
  "get_key_replicas key (self_node_count (storage_node node_id [])) = Inl ZeroDivisionError
   \<and> (nodes \<noteq> [] \<longrightarrow>
        get_key_replicas key (self_node_count (storage_node node_id nodes))
          = Inr [str (from_bytes_little (md5 key) mod int (length nodes)),
                 str ((from_bytes_little (md5 key) + 1) mod int (length nodes)),
                 str ((from_bytes_little (md5 key) + 2) mod int (length nodes))])
   \<and> (nodes \<noteq> [] \<and> sort nodes = map (\<lambda>i. str (int i)) [0..<length nodes] \<longrightarrow>
        get_key_replicas key (self_node_count (storage_node node_id nodes))
          = Inr (spec_replicas_of key nodes))
   \<and> (nodes \<noteq> [] \<longrightarrow>
        (get_key_replicas key (self_node_count (storage_node node_id nodes))
           = Inr (spec_replicas_of key nodes))
        = (sort nodes ! nat (from_bytes_little (md5 key) mod int (length nodes))
             = str (from_bytes_little (md5 key) mod int (length nodes))
           \<and> sort nodes ! nat ((from_bytes_little (md5 key) + 1) mod int (length nodes))
             = str ((from_bytes_little (md5 key) + 1) mod int (length nodes))
           \<and> sort nodes ! nat ((from_bytes_little (md5 key) + 2) mod int (length nodes))
             = str ((from_bytes_little (md5 key) + 2) mod int (length nodes))))"
proof (intro conjI impI)
  show "get_key_replicas key (self_node_count (storage_node node_id [])) = Inl ZeroDivisionError"
    by (simp add: storage_node_count get_key_replicas_def)
next
  assume "nodes \<noteq> []"
  then show "get_key_replicas key (self_node_count (storage_node node_id nodes))
          = Inr [str (from_bytes_little (md5 key) mod int (length nodes)),
                 str ((from_bytes_little (md5 key) + 1) mod int (length nodes)),
                 str ((from_bytes_little (md5 key) + 2) mod int (length nodes))]"
    by (simp add: storage_node_count get_key_replicas_eq del: str.simps)
next
  assume a: "nodes \<noteq> [] \<and> sort nodes = map (\<lambda>i. str (int i)) [0..<length nodes]"
  define N where "N = int (length nodes)"
  define H where "H = from_bytes_little (md5 key)"
  have N: "0 < N" using a by (simp add: N_def)
  have idx: "sort nodes ! nat (j mod N) = str (j mod N)" for j
  proof -
    have "0 \<le> j mod N" "j mod N < N" using N by simp_all
    then have "nat (j mod N) < length nodes" by (simp add: N_def)
    then have "sort nodes ! nat (j mod N) = str (int (nat (j mod N)))"
      using a by (simp del: str.simps)
    then show ?thesis using \<open>0 \<le> j mod N\<close> by (simp del: str.simps)
  qed
  have "spec_replicas_of key nodes = [str (H mod N), str ((H + 1) mod N), str ((H + 2) mod N)]"
    using idx [of H] idx [of "H + 1"] idx [of "H + 2"]
    by (simp add: spec_replicas_of_def Let_def H_def N_def mod_simps del: str.simps)
  then show "get_key_replicas key (self_node_count (storage_node node_id nodes))
          = Inr (spec_replicas_of key nodes)"
    using N by (simp add: storage_node_count get_key_replicas_eq H_def N_def del: str.simps)
next
  assume "nodes \<noteq> []"
  then show "(get_key_replicas key (self_node_count (storage_node node_id nodes))
           = Inr (spec_replicas_of key nodes))
        = (sort nodes ! nat (from_bytes_little (md5 key) mod int (length nodes))
             = str (from_bytes_little (md5 key) mod int (length nodes))
           \<and> sort nodes ! nat ((from_bytes_little (md5 key) + 1) mod int (length nodes))
             = str ((from_bytes_little (md5 key) + 1) mod int (length nodes))
           \<and> sort nodes ! nat ((from_bytes_little (md5 key) + 2) mod int (length nodes))
             = str ((from_bytes_little (md5 key) + 2) mod int (length nodes)))"
    by (rule placement_agrees_iff)
qed

theorem placement_by_index_witness:
  "[''2'', ''0'', ''1''] \<noteq> []
   \<and> sort [''2'', ''0'', ''1''] = map (\<lambda>i. str (int i)) [0..<length [''2'', ''0'', ''1'']]
   \<and> get_key_replicas ''x'' (self_node_count (storage_node ''0'' [''2'', ''0'', ''1'']))
       = Inr [''0'', ''1'', ''2'']
   \<and> spec_replicas_of ''x'' [''2'', ''0'', ''1''] = [''0'', ''1'', ''2'']"
proof -
  have s: "sort [''2'', ''0'', ''1''] = map (\<lambda>i. str (int i)) [0..<length [''2'', ''0'', ''1'']]"
    by (simp add: upt_rec digit_char_def)
  have n: "[''2'', ''0'', ''1''] \<noteq> []" by simp
  have r: "get_key_replicas ''x'' (self_node_count (storage_node ''0'' [''2'', ''0'', ''1'']))
       = Inr [''0'', ''1'', ''2'']"
    by (simp add: storage_node_count replicas_x)
  have "get_key_replicas ''x'' (self_node_count (storage_node ''0'' [''2'', ''0'', ''1'']))
       = Inr (spec_replicas_of ''x'' [''2'', ''0'', ''1''])"
    using placement_by_index [of "''x''" "''0''" "[''2'', ''0'', ''1'']"] s n by blast
  with r have "spec_replicas_of ''x'' [''2'', ''0'', ''1''] = [''0'', ''1'', ''2'']" by simp
  then show ?thesis using s n r by blast
qed

section \<open>Duplicate responses\<close>

lemma dict_set_keys: "fst ` set (dict_set d k v) = insert k (fst ` set d)"
  by (induction d k v rule: dict_set.induct) auto

lemma dict_set_distinct: "distinct (map fst d) \<Longrightarrow> distinct (map fst (dict_set d k v))"
  by (induction d k v rule: dict_set.induct) (auto simp: dict_set_keys)

lemma dict_set_map_of: "map_of (dict_set d k v) = (map_of d)(k \<mapsto> v)"
  by (induction d k v rule: dict_set.induct) auto

lemma dict_set_twice: "dict_set (dict_set d k v) k v = dict_set d k v"
  by (induction d k v rule: dict_set.induct) auto

lemma dict_set_length:
  "distinct (map fst d) \<Longrightarrow> length (dict_set d k v) = card (insert k (fst ` set d))"
proof -
  assume "distinct (map fst d)"
  then have "distinct (map fst (dict_set d k v))" by (rule dict_set_distinct)
  then have "card (set (map fst (dict_set d k v))) = length (map fst (dict_set d k v))"
    by (rule distinct_card)
  then show ?thesis by (simp add: dict_set_keys)
qed

lemma response_step_total:
  assumes "response_of m = Some (op, rid, replica, c)"
  shows "\<exists>s1 o1. on_message s m sender = Inr (s1, o1)"
  using assms by (auto simp: on_message_response split: option.splits)

lemma response_idempotent:
  assumes "response_of m = Some (op, rid, replica, c)"
    and "on_message s m sender = Inr (s1, o1)"
  shows "on_message s1 m sender = Inr (s1, [])"
proof (cases "self_pending_requests s rid")
  case None
  then show ?thesis using assms by (simp add: on_message_response)
next
  case (Some p)
  show ?thesis
  proof (cases "op \<noteq> Op_GET \<and> p_operation p \<noteq> op")
    case True
    then show ?thesis using assms Some by (simp add: on_message_response)
  next
    case False
    show ?thesis
    proof (cases "int (length (dict_set (p_responses p) replica c)) \<ge> p_quorum p")
      case True
      then have "self_pending_requests s1 rid = None"
        using assms Some False by (auto simp: on_message_response)
      then show ?thesis using assms(1) by (simp add: on_message_response)
    next
      case nq: False
      then have s1: "s1 = s\<lparr>self_pending_requests := (self_pending_requests s)(rid \<mapsto>
                          p\<lparr>p_responses := dict_set (p_responses p) replica c\<rparr>)\<rparr>"
        using assms Some False by (auto simp: on_message_response)
      show ?thesis
        using nq False by (simp add: on_message_response [OF assms(1)] s1 dict_set_twice)
    qed
  qed
qed

lemma run_duplicate:
  assumes "response_of m \<noteq> None"
  shows "run s (Message m sender # Message m sender # evs) = run s (Message m sender # evs)"
proof -
  from assms obtain op rid replica c where r: "response_of m = Some (op, rid, replica, c)"
    by (cases "response_of m") auto
  obtain s1 o1 where st: "on_message s m sender = Inr (s1, o1)"
    using response_step_total [OF r] by blast
  have "on_message s1 m sender = Inr (s1, [])" by (rule response_idempotent [OF r st])
  then show ?thesis using st by (simp split: sum.splits prod.splits)
qed

lemma response_gate:
  assumes "response_of m = Some (op, rid, replica, c)"
    and "self_pending_requests s rid = Some p" and "p_operation p = op"
    and "distinct (map fst (p_responses p))"
  shows "on_message s m sender =
           (if p_quorum p \<le> int (card (insert replica (fst ` set (p_responses p))))
            then finalizer op
                   (s\<lparr>self_pending_requests := (self_pending_requests s)(rid \<mapsto>
                        p\<lparr>p_responses := dict_set (p_responses p) replica c\<rparr>)\<rparr>) rid
            else Inr (s\<lparr>self_pending_requests := (self_pending_requests s)(rid \<mapsto>
                        p\<lparr>p_responses := dict_set (p_responses p) replica c\<rparr>)\<rparr>, []))"
  using assms
  by (cases m)
     (auto simp: handle_replica_get_resp_def handle_replica_put_resp_def
        handle_replica_delete_resp_def Let_def dict_set_length)

lemma storage_node_slots_distinct: "slots_distinct (storage_node node_id nodes)"
  by (simp add: slots_distinct_def storage_node_def)

lemma step_slots_distinct:
  assumes "step s ev = Inr (s', outs)" and "slots_distinct s"
  shows "slots_distinct s'"
proof (cases ev)
  case (Local_message m now)
  show ?thesis
  proof (cases "request_of m")
    case None
    then show ?thesis using assms Local_message by (simp add: on_local_message_other)
  next
    case (Some r)
    then obtain op key q where r: "request_of m = Some (op, key, q)" by (cases r) auto
    show ?thesis using assms Local_message
      by (auto simp: on_local_message_request [OF r] slots_distinct_def
            split: sum.splits if_splits)
  qed
next
  case (Message m sender)
  show ?thesis
  proof (cases "response_of m")
    case None
    then show ?thesis using assms Message on_message_other [OF None, of s sender]
      by (auto simp: slots_distinct_def)
  next
    case (Some r)
    then obtain op rid replica c where r: "response_of m = Some (op, rid, replica, c)"
      by (cases r) auto
    show ?thesis using assms Message
      by (auto simp: on_message_response [OF r] slots_distinct_def dict_set_distinct
            split: option.splits if_splits)
  qed
next
  case (Timer x)
  then show ?thesis using assms by (simp add: on_timer_def)
qed


lemma dict_set_same: "map_of d k = Some v \<Longrightarrow> dict_set d k v = d"
  by (induction d k v rule: dict_set.induct) (auto split: if_splits)

lemma run_append:
  "run s (xs @ ys) =
     (case run s xs of
        Inl e \<Rightarrow> Inl e
      | Inr (s', outs) \<Rightarrow>
          (case run s' ys of Inl e \<Rightarrow> Inl e | Inr (s'', outs') \<Rightarrow> Inr (s'', outs @ outs')))"
  by (induction xs arbitrary: s) (auto split: sum.splits prod.splits)

lemma copy_harmless_after:
  assumes "response_of m = Some (op, rid, replica, c)" and "rid < self_request_counter s"
    and "on_message s m sender = Inr (s1, o1)"
  shows "copy_harmless op rid replica c s1"
  using assms
  by (auto simp: on_message_response copy_harmless_def dict_set_map_of
        split: option.splits if_splits)

lemma copy_harmless_step:
  assumes "copy_harmless op rid replica c s" and "slot_kept rid replica c ev"
    and "step s ev = Inr (s', outs)"
  shows "copy_harmless op rid replica c s'"
proof (cases "response_for rid ev")
  case False
  have "rid \<noteq> self_request_counter s" using assms(1) by (simp add: copy_harmless_def)
  then have "self_pending_requests s' rid = self_pending_requests s rid"
    using step_pending_other [OF assms(3) False] by simp
  then show ?thesis using assms(1) step_counter [OF assms(3)] by (simp add: copy_harmless_def)
next
  case True
  then obtain m' sender' where ev: "ev = Message m' sender'" by (cases ev) auto
  with True obtain op' replica' c' where r: "response_of m' = Some (op', rid, replica', c')"
    by (auto split: option.splits)
  have k: "replica' \<noteq> replica \<or> c' = c" using assms(2) ev r by simp
  show ?thesis
    using assms(1,3) ev k
    by (auto simp: on_message_response [OF r] copy_harmless_def dict_set_map_of
          split: option.splits if_splits)
qed

lemma copy_harmless_run:
  assumes "copy_harmless op rid replica c s" and "\<forall>ev\<in>set evs. slot_kept rid replica c ev"
    and "run s evs = Inr (s', outs)"
  shows "copy_harmless op rid replica c s'"
  using assms
proof (induction evs arbitrary: s outs)
  case Nil
  then show ?case by simp
next
  case (Cons ev evs)
  from Cons.prems(3) obtain s1 o1 o2 where st: "step s ev = Inr (s1, o1)"
    and rn: "run s1 evs = Inr (s', o2)"
    by (auto split: sum.splits prod.splits)
  have "copy_harmless op rid replica c s1"
    using copy_harmless_step [OF Cons.prems(1) _ st] Cons.prems(2) by simp
  then show ?case using Cons.IH [OF _ _ rn] Cons.prems(2) by simp
qed

lemma pending_update_same:
  "self_pending_requests s rid = Some p \<Longrightarrow>
     s\<lparr>self_pending_requests := (self_pending_requests s)(rid \<mapsto> p)\<rparr> = s"
  by (simp add: map_upd_triv)

lemma copy_harmless_drop:
  assumes "copy_harmless op rid replica c s" and "response_of m = Some (op, rid, replica, c)"
  shows "on_message s m sender = Inr (s, [])"
  using assms
  by (auto simp: on_message_response copy_harmless_def dict_set_same pending_update_same
        split: option.splits)

lemma run_later_copy:
  assumes "response_of m = Some (op, rid, replica, c)" and "rid < self_request_counter s"
    and "\<forall>ev\<in>set evs. slot_kept rid replica c ev"
  shows "run s (Message m sender # evs @ Message m sender # evs')
           = run s (Message m sender # evs @ evs')"
proof (cases "run s (Message m sender # evs)")
  case (Inl e)
  then have "run s ((Message m sender # evs) @ ys) = Inl e" for ys
    by (simp only: run_append) simp
  from this [of "Message m sender # evs'"] this [of evs'] show ?thesis by simp
next
  case (Inr r)
  then obtain s' outs where rn: "run s (Message m sender # evs) = Inr (s', outs)"
    by (cases r) auto
  then obtain s1 o1 o2 where st: "on_message s m sender = Inr (s1, o1)"
    and rn1: "run s1 evs = Inr (s', o2)"
    by (auto split: sum.splits prod.splits)
  have "copy_harmless op rid replica c s1" by (rule copy_harmless_after [OF assms(1,2) st])
  then have "copy_harmless op rid replica c s'" by (rule copy_harmless_run [OF _ assms(3) rn1])
  then have d: "step s' (Message m sender) = Inr (s', [])"
    using copy_harmless_drop [OF _ assms(1)] by simp
  have "run s ((Message m sender # evs) @ ys)
          = (case run s' ys of Inl e \<Rightarrow> Inl e | Inr (s'', outs') \<Rightarrow> Inr (s'', outs @ outs'))" for ys
    by (simp only: run_append rn) simp
  from this [of "Message m sender # evs'"] this [of evs'] d show ?thesis
    by (simp split: sum.splits prod.splits)
qed

text \<open>
  C8, as stated, fails for a copy that arrives after another response of the same replica:
  with a GET of quorum 2 pending, replica 1 answers \<open>(None, -1)\<close> and later \<open>(''v'', 5)\<close>, then
  replica 2 answers \<open>(None, -1)\<close>, and the client is answered \<open>''v''\<close>; when the first
  answer of replica 1 is delivered once more after its second answer, the slot goes back to
  \<open>(None, -1)\<close> and the client is answered with the tombstone.
\<close>

theorem later_copy_changes_outcome:
  "run ex_node
     [Local_message (GET ''x'' 2) 10,
      Message (REPLICA_GET_RESP ''x'' None (- 1) 0 ''1'') ''1'',
      Message (REPLICA_GET_RESP ''x'' (Some ''v'') 5 0 ''1'') ''1'',
      Message (REPLICA_GET_RESP ''x'' None (- 1) 0 ''2'') ''2'']
   = Inr (ex_node\<lparr>self_request_counter := 1\<rparr>,
          [Send (REPLICA_GET_REQ ''x'' 0 ''0'') ''0'',
           Send (REPLICA_GET_REQ ''x'' 0 ''0'') ''1'',
           Send (REPLICA_GET_REQ ''x'' 0 ''0'') ''2'',
           Send (REPLICA_READ_REPAIR ''x'' (Some ''v'') 5) ''2'',
           Send_local (GET_RESP ''x'' (Some ''v''))])
   \<and> run ex_node
     [Local_message (GET ''x'' 2) 10,
      Message (REPLICA_GET_RESP ''x'' None (- 1) 0 ''1'') ''1'',
      Message (REPLICA_GET_RESP ''x'' (Some ''v'') 5 0 ''1'') ''1'',
      Message (REPLICA_GET_RESP ''x'' None (- 1) 0 ''1'') ''1'',
      Message (REPLICA_GET_RESP ''x'' None (- 1) 0 ''2'') ''2'']
   = Inr (ex_node\<lparr>self_request_counter := 1\<rparr>,
          [Send (REPLICA_GET_REQ ''x'' 0 ''0'') ''0'',
           Send (REPLICA_GET_REQ ''x'' 0 ''0'') ''1'',
           Send (REPLICA_GET_REQ ''x'' 0 ''0'') ''2'',
           Send_local (GET_RESP ''x'' None)])"
  by (simp add: ex_simps)

text \<open>
  C8, amended. Recording a response assigns the replica's slot (the last assignment wins).
  For a pending request whose operation the response names, the handler records the slot
  and calls the finalizer exactly when the number of distinct replicas that have answered
  reaches the quorum; the slots of every pending request are from distinct replicas in the
  initial state and after every step. Delivering a response twice in a row gives the same
  state and output as delivering it once; so does a second copy delivered later, when the
  request identifier was allocated before the first copy and no response of the same
  replica to the same request with another cell comes between the two copies.
\<close>

theorem duplicate_responses:
  "map_of (dict_set rs replica c) = (map_of rs)(replica \<mapsto> c)
   \<and> (response_of m = Some (op, rid, replica, c) \<and> self_pending_requests s rid = Some p
        \<and> p_operation p = op \<and> distinct (map fst (p_responses p))
        \<longrightarrow> on_message s m sender =
             (if p_quorum p \<le> int (card (insert replica (fst ` set (p_responses p))))
              then finalizer op
                     (s\<lparr>self_pending_requests := (self_pending_requests s)(rid \<mapsto>
                          p\<lparr>p_responses := dict_set (p_responses p) replica c\<rparr>)\<rparr>) rid
              else Inr (s\<lparr>self_pending_requests := (self_pending_requests s)(rid \<mapsto>
                          p\<lparr>p_responses := dict_set (p_responses p) replica c\<rparr>)\<rparr>, [])))
   \<and> slots_distinct (storage_node node_id nodes)
   \<and> (slots_distinct s \<and> step s ev = Inr (s', outs) \<longrightarrow> slots_distinct s')
   \<and> (response_of m \<noteq> None
        \<longrightarrow> run s (Message m sender # Message m sender # evs')
             = run s (Message m sender # evs'))
   \<and> (response_of m = Some (op, rid, replica, c) \<and> rid < self_request_counter s
        \<and> (\<forall>ev\<in>set evs. slot_kept rid replica c ev)
        \<longrightarrow> run s (Message m sender # evs @ Message m sender # evs')
             = run s (Message m sender # evs @ evs'))"
proof (intro conjI impI)
  show "map_of (dict_set rs replica c) = (map_of rs)(replica \<mapsto> c)" by (rule dict_set_map_of)
next
  assume "response_of m = Some (op, rid, replica, c) \<and> self_pending_requests s rid = Some p
        \<and> p_operation p = op \<and> distinct (map fst (p_responses p))"
  then show "on_message s m sender =
             (if p_quorum p \<le> int (card (insert replica (fst ` set (p_responses p))))
              then finalizer op
                     (s\<lparr>self_pending_requests := (self_pending_requests s)(rid \<mapsto>
                          p\<lparr>p_responses := dict_set (p_responses p) replica c\<rparr>)\<rparr>) rid
              else Inr (s\<lparr>self_pending_requests := (self_pending_requests s)(rid \<mapsto>
                          p\<lparr>p_responses := dict_set (p_responses p) replica c\<rparr>)\<rparr>, []))"
    using response_gate by blast
next
  show "slots_distinct (storage_node node_id nodes)" by (rule storage_node_slots_distinct)
next
  assume "slots_distinct s \<and> step s ev = Inr (s', outs)"
  then show "slots_distinct s'" using step_slots_distinct by blast
next
  assume "response_of m \<noteq> None"
  then show "run s (Message m sender # Message m sender # evs') = run s (Message m sender # evs')"
    by (rule run_duplicate)
next
  assume "response_of m = Some (op, rid, replica, c) \<and> rid < self_request_counter s
        \<and> (\<forall>ev\<in>set evs. slot_kept rid replica c ev)"
  then show "run s (Message m sender # evs @ Message m sender # evs')
             = run s (Message m sender # evs @ evs')"
    using run_later_copy by blast
qed

theorem duplicate_responses_witness:
  "response_of (REPLICA_GET_RESP ''x'' None (- 1) 0 ''1'') = Some (Op_GET, 0, ''1'', (None, - 1))
   \<and> self_pending_requests (ex_get 2 []) 0 = Some (ex_pending 2 [])
   \<and> p_operation (ex_pending 2 []) = Op_GET
   \<and> distinct (map fst (p_responses (ex_pending 2 [])))
   \<and> slots_distinct (ex_get 2 [])
   \<and> step (ex_get 2 []) (Message (REPLICA_GET_RESP ''x'' None (- 1) 0 ''1'') ''1'')
       = Inr (ex_get 2 [(''1'', (None, - 1))], [])
   \<and> slots_distinct (ex_get 2 [(''1'', (None, - 1))])
   \<and> 0 < self_request_counter (ex_get 2 [])
   \<and> slot_kept 0 ''1'' (None, - 1) (Message (REPLICA_GET_RESP ''x'' (Some ''v'') 5 0 ''2'') ''2'')
   \<and> run (ex_get 2 [])
        [Message (REPLICA_GET_RESP ''x'' None (- 1) 0 ''1'') ''1'',
         Message (REPLICA_GET_RESP ''x'' (Some ''v'') 5 0 ''2'') ''2'',
         Message (REPLICA_GET_RESP ''x'' None (- 1) 0 ''1'') ''1'']
       = run (ex_get 2 [])
        [Message (REPLICA_GET_RESP ''x'' None (- 1) 0 ''1'') ''1'',
         Message (REPLICA_GET_RESP ''x'' (Some ''v'') 5 0 ''2'') ''2'']
   \<and> run (ex_get 2 [])
        [Message (REPLICA_GET_RESP ''x'' None (- 1) 0 ''1'') ''1'',
         Message (REPLICA_GET_RESP ''x'' None (- 1) 0 ''1'') ''1'']
       = run (ex_get 2 []) [Message (REPLICA_GET_RESP ''x'' None (- 1) 0 ''1'') ''1'']"
proof -
  have r: "response_of (REPLICA_GET_RESP ''x'' None (- 1) 0 ''1'')
             = Some (Op_GET, 0, ''1'', (None, - 1))" by simp
  have rn: "response_of (REPLICA_GET_RESP ''x'' None (- 1) 0 ''1'') \<noteq> None" by simp
  have p: "self_pending_requests (ex_get 2 []) 0 = Some (ex_pending 2 [])"
    by (simp add: ex_get_def)
  have o: "p_operation (ex_pending 2 []) = Op_GET" by (simp add: ex_pending_def)
  have d: "distinct (map fst (p_responses (ex_pending 2 [])))" by (simp add: ex_pending_def)
  have sd: "slots_distinct (ex_get 2 [])"
    by (simp add: slots_distinct_def ex_get_def ex_pending_def)
  have st: "step (ex_get 2 []) (Message (REPLICA_GET_RESP ''x'' None (- 1) 0 ''1'') ''1'')
       = Inr (ex_get 2 [(''1'', (None, - 1))], [])"
    by (simp add: handle_replica_get_resp_def ex_get_def ex_pending_def)
  have c: "0 < self_request_counter (ex_get 2 [])" by (simp add: ex_get_def)
  have k: "slot_kept 0 ''1'' (None, - 1)
             (Message (REPLICA_GET_RESP ''x'' (Some ''v'') 5 0 ''2'') ''2'')" by simp
  then have ks: "\<forall>ev\<in>set [Message (REPLICA_GET_RESP ''x'' (Some ''v'') 5 0 ''2'') ''2''].
                   slot_kept 0 ''1'' (None, - 1) ev" by simp
  note w = duplicate_responses [where m = "REPLICA_GET_RESP ''x'' None (- 1) 0 ''1''"
      and op = Op_GET and rid = 0 and replica = "''1''" and c = "(None, - 1)"
      and s = "ex_get 2 []" and p = "ex_pending 2 []" and sender = "''1''"
      and ev = "Message (REPLICA_GET_RESP ''x'' None (- 1) 0 ''1'') ''1''"
      and s' = "ex_get 2 [(''1'', (None, - 1))]" and outs = "[]"
      and evs = "[Message (REPLICA_GET_RESP ''x'' (Some ''v'') 5 0 ''2'') ''2'']"
      and evs' = "[]"]
  have a: "slots_distinct (ex_get 2 [(''1'', (None, - 1))])" using w sd st by blast
  have b: "run (ex_get 2 [])
        (Message (REPLICA_GET_RESP ''x'' None (- 1) 0 ''1'') ''1''
          # [Message (REPLICA_GET_RESP ''x'' (Some ''v'') 5 0 ''2'') ''2'']
          @ Message (REPLICA_GET_RESP ''x'' None (- 1) 0 ''1'') ''1'' # [])
       = run (ex_get 2 [])
        (Message (REPLICA_GET_RESP ''x'' None (- 1) 0 ''1'') ''1''
          # [Message (REPLICA_GET_RESP ''x'' (Some ''v'') 5 0 ''2'') ''2''] @ [])"
    using w r c ks by blast
  have e: "run (ex_get 2 [])
        [Message (REPLICA_GET_RESP ''x'' None (- 1) 0 ''1'') ''1'',
         Message (REPLICA_GET_RESP ''x'' None (- 1) 0 ''1'') ''1'']
       = run (ex_get 2 []) [Message (REPLICA_GET_RESP ''x'' None (- 1) 0 ''1'') ''1'']"
    using w rn by blast
  from b have b': "run (ex_get 2 [])
        [Message (REPLICA_GET_RESP ''x'' None (- 1) 0 ''1'') ''1'',
         Message (REPLICA_GET_RESP ''x'' (Some ''v'') 5 0 ''2'') ''2'',
         Message (REPLICA_GET_RESP ''x'' None (- 1) 0 ''1'') ''1'']
       = run (ex_get 2 [])
        [Message (REPLICA_GET_RESP ''x'' None (- 1) 0 ''1'') ''1'',
         Message (REPLICA_GET_RESP ''x'' (Some ''v'') 5 0 ''2'') ''2'']"
    by (simp only: append.simps)
  show ?thesis using r p o d sd st a c k b' e by blast
qed

section \<open>The quorum of a client request\<close>








lemma step_node_count:
  assumes "step s ev = Inr (s', outs)"
  shows "self_node_count s' = self_node_count s"
proof (cases ev)
  case (Local_message m now)
  then show ?thesis using assms
    by (cases "request_of m")
       (auto simp: on_local_message_request on_local_message_other split: sum.splits)
next
  case (Message m sender)
  show ?thesis
  proof (cases "response_of m")
    case None
    then show ?thesis using assms Message
      by (cases m)
         (auto simp: handle_replica_get_req_def handle_replica_put_req_def
            handle_replica_delete_req_def handle_replica_read_repair_def
            split: prod.splits if_splits)
  next
    case (Some r)
    then obtain op rid replica c where r: "response_of m = Some (op, rid, replica, c)"
      by (cases r) auto
    show ?thesis using assms Message
      by (auto simp: on_message_response [OF r] split: option.splits if_splits)
  qed
next
  case (Timer x)
  then show ?thesis using assms by (simp add: on_timer_def)
qed

lemma step_total:
  assumes "self_node_count s \<noteq> 0"
  shows "\<exists>s' outs. step s ev = Inr (s', outs)"
proof (cases ev)
  case (Local_message m now)
  show ?thesis
  proof (cases "request_of m")
    case None
    then show ?thesis using Local_message by (simp add: on_local_message_other)
  next
    case (Some r)
    then obtain op key q where r: "request_of m = Some (op, key, q)" by (cases r) auto
    show ?thesis using Local_message assms
      by (simp add: on_local_message_request [OF r] get_key_replicas_eq del: str.simps)
  qed
next
  case (Message m sender)
  show ?thesis
  proof (cases "response_of m")
    case None
    then show ?thesis using Message on_message_other [OF None, of s sender] by auto
  next
    case (Some r)
    then obtain op rid replica c where r: "response_of m = Some (op, rid, replica, c)"
      by (cases r) auto
    show ?thesis using Message response_step_total [OF r, of s sender] by simp
  qed
next
  case (Timer x)
  then show ?thesis by (simp add: on_timer_def)
qed

lemma run_total:
  assumes "self_node_count s \<noteq> 0"
  shows "\<exists>s' outs. run s evs = Inr (s', outs)"
  using assms
proof (induction evs arbitrary: s)
  case Nil
  then show ?case by simp
next
  case (Cons ev evs)
  obtain s1 o1 where st: "step s ev = Inr (s1, o1)" using step_total [OF Cons.prems] by blast
  then have "self_node_count s1 \<noteq> 0" using step_node_count Cons.prems by simp
  then obtain s' o2 where "run s1 evs = Inr (s', o2)" using Cons.IH by blast
  then show ?case using st by simp
qed





end
